theory Spec2Isabelle
  imports Complex_Main
begin

section \<open>The electrolyzer stack (stack.py)\<close>

subsection \<open>External collaborators\<close>

text \<open>
  Numeric attributes of the Python class are floats; they are modelled as reals. The two
  places where the outcome of the source depends on what a float division by zero gives
  (the life estimators and the final division of the power-sharing policy) are modelled
  with an explicit type of float values further below.
\<close>

text \<open>
  The cell model (\<open>PEMCell\<close>/\<open>AlkalineCell\<close>, the fitted \<open>electrolyzer_model\<close>) and the
  \<open>rainflow\<close> package are not part of the modelled files. They are passed in as
  functions: \<open>electrolyzer_model P_kW T\<close> is the fitted current (the fit parameters
  are folded into the function), \<open>calc_cell_voltage I T\<close>, \<open>calc_mass_flow_rate T I\<close>,
  and \<open>count_cycles xs\<close> is \<open>rainflow.count_cycles(xs, nbins=10)\<close>, a list of
  (range, count) pairs.
\<close>

record cell_model =
  electrolyzer_model :: "real \<Rightarrow> real \<Rightarrow> real"
  calc_cell_voltage :: "real \<Rightarrow> real \<Rightarrow> real"
  calc_mass_flow_rate :: "real \<Rightarrow> real \<Rightarrow> real"
  count_cycles :: "real list \<Rightarrow> (real \<times> real) list"

subsection \<open>State of a stack\<close>

text \<open>
  The attributes of \<open>Stack\<close> that the modelled methods read or write. The attribute
  \<open>I\<close> of the source is the field \<open>stack_I\<close>; \<open>DTSS\<close> holds the four scalars of the
  discrete state space in the order A, B, C, D.
\<close>

record stack =
  dt :: real
  temperature :: real
  n_cells :: real
  include_degradation_penalty :: bool
  hydrogen_degradation_penalty :: bool
  d_eol :: real
  rate_steady :: real
  rate_fatigue :: real
  rate_onoff :: real
  uptime :: real
  cell_voltage :: real
  d_s :: real
  rf_track :: real
  fatigue_history :: real
  hourly_counter :: int
  hour_change :: bool
  voltage_signal :: "real list"
  voltage_history :: "real list"
  degradation_history :: "real list"
  power_input_history :: "real list"
  d_f :: real
  cycle_count :: int
  d_o :: real
  V_degradation :: real
  stack_I :: real
  stack_on :: bool
  stack_waiting :: bool
  base_turn_on_delay :: real
  turn_on_delay :: real
  turn_on_time :: real
  turn_off_time :: real
  wait_time :: real
  time :: real
  tau :: real
  stack_state :: real
  DTSS :: "real \<times> real \<times> real \<times> real"
  ignore_dynamics :: bool

text \<open>
  Construction: the attribute defaults followed by \<open>__attrs_post_init__\<close>. The rates
  come from the degradation dictionary; \<open>calc_state_space\<close> (scipy) and
  \<open>calc_end_of_life_voltage\<close> (cell model) are computed outside the modelled code, so
  their results are arguments.
\<close>

definition init_stack ::
  "real \<Rightarrow> real \<Rightarrow> real \<Rightarrow> bool \<Rightarrow> bool \<Rightarrow> real \<Rightarrow> real \<Rightarrow> real \<Rightarrow>
   (real \<times> real \<times> real \<times> real) \<Rightarrow> real \<Rightarrow> stack" where
  "init_stack dt0 temp ncells incl_pen h2_pen r_steady r_fatigue r_onoff dtss deol =
     (let base = 600;
          tau0 = 5;
          delay = (if dt0 > 2 * base then 0 else base);
          on_time = 0;
          off_time = - delay
      in \<lparr> dt = dt0, temperature = temp, n_cells = ncells,
           include_degradation_penalty = incl_pen,
           hydrogen_degradation_penalty = h2_pen,
           d_eol = deol,
           rate_steady = r_steady, rate_fatigue = r_fatigue, rate_onoff = r_onoff,
           uptime = 0, cell_voltage = 0, d_s = 0, rf_track = 0, fatigue_history = 0,
           hourly_counter = 0, hour_change = False,
           voltage_signal = [], voltage_history = [], degradation_history = [],
           power_input_history = [],
           d_f = 0, cycle_count = 0, d_o = 0, V_degradation = 0, stack_I = 0,
           stack_on = False, stack_waiting = False,
           base_turn_on_delay = base, turn_on_delay = delay,
           turn_on_time = on_time, turn_off_time = off_time,
           wait_time = min (on_time - off_time) delay,
           time = 0, tau = tau0, stack_state = 0, DTSS = dtss,
           ignore_dynamics = (dt0 > tau0) \<rparr>)"

subsection \<open>The startup state machine\<close>

definition update_status :: "stack \<Rightarrow> stack" where
  "update_status s =
     (if stack_on s then s
      else if stack_waiting s then
        (if turn_on_time s + wait_time s \<le> time s
         then s\<lparr>stack_waiting := False, stack_on := True\<rparr>
         else s)
      else s)"

definition turn_stack_off :: "stack \<Rightarrow> stack" where
  "turn_stack_off s =
     (if stack_on s \<or> stack_waiting s then
        (let s1 = s\<lparr>turn_off_time := time s\<rparr>;
             s2 = s1\<lparr>stack_on := False\<rparr>;
             s3 = s2\<lparr>stack_waiting := False\<rparr>;
             s4 = s3\<lparr>cycle_count := cycle_count s3 + 1\<rparr>
         in s4\<lparr>wait_time := max 0 (wait_time s4 - (turn_off_time s4 - turn_on_time s4))\<rparr>)
      else s)"

definition turn_stack_on :: "stack \<Rightarrow> stack" where
  "turn_stack_on s =
     (if stack_on s then s
      else
        (let s1 = (if \<not> stack_waiting s then s\<lparr>turn_on_time := time s\<rparr> else s);
             s2 = s1\<lparr>stack_waiting := True\<rparr>
         in s2\<lparr>wait_time :=
                 min (wait_time s2 + (turn_on_time s2 - turn_off_time s2)) (turn_on_delay s2)\<rparr>))"

subsection \<open>Degradation\<close>

text \<open>\<open>xs[np.nonzero(xs)]\<close>: the nonzero samples, in order.\<close>

definition nonzero :: "real list \<Rightarrow> real list" where
  "nonzero xs = filter (\<lambda>v. v \<noteq> 0) xs"

definition calc_fatigue_degradation :: "cell_model \<Rightarrow> stack \<Rightarrow> real list \<Rightarrow> real \<times> stack" where
  "calc_fatigue_degradation cm s vsignal =
     (let vs = nonzero vsignal;
          rf_cycles = count_cycles cm vs;
          rf_sum = sum_list (map (\<lambda>pair. fst pair * snd pair) rf_cycles);
          s1 = s\<lparr>rf_track := rf_track s + rf_sum\<rparr>
      in (rate_fatigue s1 * rf_track s1, s1))"

definition calc_steady_degradation :: "stack \<Rightarrow> real \<times> stack" where
  "calc_steady_degradation s =
     (let ds = d_s s + rate_steady s * cell_voltage s * dt s
      in (ds, s\<lparr>d_s := ds\<rparr>))"

definition calc_onoff_degradation :: "stack \<Rightarrow> real \<times> stack" where
  "calc_onoff_degradation s =
     (let d = rate_onoff s * of_int (cycle_count s)
      in (d, s\<lparr>d_o := d\<rparr>))"

text \<open>
  The guard of the hourly fatigue evaluation in \<open>update_degradation\<close>: the hour flag is
  set, the snapshot has nonzero samples, and their relative spread exceeds 0.05. The
  division is by the maximum of nonzero samples, which is not zero.
\<close>

definition voltage_perc :: "real list \<Rightarrow> real" where
  "voltage_perc nz = (Max (set nz) - Min (set nz)) / Max (set nz)"

definition fatigue_due :: "stack \<Rightarrow> bool" where
  "fatigue_due s =
     (hour_change s \<and>
      (let nz = nonzero (voltage_signal s)
       in length nz > 0 \<and> voltage_perc nz > 0.05))"

definition update_degradation :: "cell_model \<Rightarrow> stack \<Rightarrow> stack" where
  "update_degradation cm s =
     (let s1 = (if fatigue_due s
                then (let (fh, sa) = calc_fatigue_degradation cm s (voltage_signal s)
                      in sa\<lparr>fatigue_history := fh\<rparr>)
                else s);
          s2 = s1\<lparr>d_f := fatigue_history s1\<rparr>;
          (ds, s3) = calc_steady_degradation s2;
          (d, s4) = calc_onoff_degradation s3
      in s4\<lparr>V_degradation := ds + d + fatigue_history s4\<rparr>)"

subsection \<open>Dynamics and power\<close>

definition update_dynamics :: "stack \<Rightarrow> real \<Rightarrow> real \<Rightarrow> real \<times> real" where
  "update_dynamics s H2_mfr_ss state =
     (if ignore_dynamics s then (stack_state s, H2_mfr_ss)
      else (case DTSS s of (A, B, C, D) \<Rightarrow>
              (A * state + B * H2_mfr_ss, C * state + D * H2_mfr_ss)))"

text \<open>
  \<open>calc_stack_power(Idc, V=None)\<close>: \<open>V or cell voltage\<close> takes the cell model's voltage
  when \<open>V\<close> is absent or zero. The result is in kW.
\<close>

definition calc_stack_power :: "cell_model \<Rightarrow> stack \<Rightarrow> real \<Rightarrow> real option \<Rightarrow> real" where
  "calc_stack_power cm s Idc V =
     (let V1 = (case V of
                  None \<Rightarrow> calc_cell_voltage cm Idc (temperature s)
                | Some v \<Rightarrow> if v = 0 then calc_cell_voltage cm Idc (temperature s) else v)
      in Idc * V1 * n_cells s / 1000)"

subsection \<open>One time step\<close>

text \<open>
  The tail of \<open>run_stack\<close>: the histories, the clock and the hour flag. \<open>time // 3600\<close>
  is the floor of the quotient.
\<close>

definition record_step :: "stack \<Rightarrow> real \<Rightarrow> real \<Rightarrow> stack" where
  "record_step s V_cell P_in =
     (let s1 = s\<lparr>cell_voltage := V_cell\<rparr>;
          s2 = s1\<lparr>voltage_history := voltage_history s1 @ [V_cell]\<rparr>;
          s3 = s2\<lparr>degradation_history := degradation_history s2 @ [V_degradation s2]\<rparr>;
          s4 = s3\<lparr>power_input_history := power_input_history s3 @ [P_in]\<rparr>;
          hourly_temp = hourly_counter s4;
          s5 = s4\<lparr>time := time s4 + dt s4\<rparr>;
          s6 = s5\<lparr>hourly_counter := \<lfloor>time s5 / 3600\<rfloor>\<rparr>
      in if hourly_temp \<noteq> hourly_counter s6
         then s6\<lparr>hour_change := True, voltage_signal := voltage_history s6,
                 voltage_history := []\<rparr>
         else s6\<lparr>hour_change := False\<rparr>)"

text \<open>\<open>run_stack\<close> returns the mass flow rate, the mass, the power left and the new state.\<close>

definition run_stack ::
  "cell_model \<Rightarrow> stack \<Rightarrow> real \<Rightarrow> real \<Rightarrow> real \<Rightarrow> real \<times> real \<times> real \<times> stack" where
  "run_stack cm s I_stack V_cell P_in =
     (if stack_on s then
        (let s1 = s\<lparr>stack_I := I_stack\<rparr>;
             V1 = (if include_degradation_penalty s1 then V_cell + V_degradation s1 else V_cell);
             s2 = update_degradation cm s1;
             power_left = P_in - calc_stack_power cm s2 I_stack (Some V1) * 1000;
             H2_ss = calc_mass_flow_rate cm (temperature s2) I_stack * n_cells s2;
             (next_state, H2_mfr) = update_dynamics s2 H2_ss (stack_state s2);
             s3 = s2\<lparr>stack_state := next_state\<rparr>;
             H2_mass_out = H2_mfr * dt s3;
             s4 = s3\<lparr>uptime := uptime s3 + dt s3\<rparr>
         in (H2_mfr, H2_mass_out, power_left, record_step s4 V1 P_in))
      else
        (let (next_state, H2_mfr) = update_dynamics s 0 (stack_state s);
             s1 = s\<lparr>stack_state := next_state\<rparr>
         in if stack_waiting s1 then
              (let s2 = s1\<lparr>uptime := uptime s1 + dt s1\<rparr>;
                   s3 = s2\<lparr>stack_I := I_stack\<rparr>;
                   s4 = update_degradation cm s3
               in (H2_mfr, 0, 0, record_step s4 V_cell P_in))
            else (H2_mfr, 0, P_in, record_step s1 0 P_in)))"

definition run_power_deg_penalty :: "cell_model \<Rightarrow> stack \<Rightarrow> real \<Rightarrow> real \<times> real" where
  "run_power_deg_penalty cm s P_in =
     (let I_stack = electrolyzer_model cm (P_in / 1000) (temperature s);
          V_cell = calc_cell_voltage cm I_stack (temperature s)
      in (I_stack, V_cell))"

text \<open>
  \<open>np.nan_to_num(a / b)\<close> on finite numpy operands (the voltage comes from the cell
  model's numpy arithmetic): the quotient, and for a zero divisor what numpy substitutes
  for the non-finite result: 0 for nan (0/0) and the largest finite double, with the
  sign of \<open>a\<close>, for an infinity.
\<close>

definition float_max :: real where
  "float_max = (2 - 1 / 2 ^ 52) * 2 ^ 1023"

definition nan_to_num_div :: "real \<Rightarrow> real \<Rightarrow> real" where
  "nan_to_num_div a b =
     (if b \<noteq> 0 then a / b
      else if a = 0 then 0
      else if a > 0 then float_max else - float_max)"

definition run_h2_deg_penalty :: "cell_model \<Rightarrow> stack \<Rightarrow> real \<Rightarrow> real \<times> real" where
  "run_h2_deg_penalty cm s P_in =
     (let I_nom = electrolyzer_model cm (P_in / 1000) (temperature s);
          V_cell = calc_cell_voltage cm I_nom (temperature s);
          eff_mult = nan_to_num_div (V_cell + V_degradation s) V_cell;
          I_stack = nan_to_num_div I_nom eff_mult
      in (I_stack, V_cell))"

definition run :: "cell_model \<Rightarrow> stack \<Rightarrow> real \<Rightarrow> real \<times> real \<times> real \<times> stack" where
  "run cm s P_in =
     (let s1 = update_status s;
          (I_stack, V_cell) = (if hydrogen_degradation_penalty s1
                               then run_h2_deg_penalty cm s1 P_in
                               else run_power_deg_penalty cm s1 P_in)
      in run_stack cm s1 I_stack V_cell P_in)"

text \<open>The three calls a caller can make on a stack, and sequences of them.\<close>

datatype stack_op = Run real | TurnOn | TurnOff

fun apply_op :: "cell_model \<Rightarrow> stack \<Rightarrow> stack_op \<Rightarrow> stack" where
  "apply_op cm s (Run P_in) = snd (snd (snd (run cm s P_in)))"
| "apply_op cm s TurnOn = turn_stack_on s"
| "apply_op cm s TurnOff = turn_stack_off s"

definition exec_ops :: "cell_model \<Rightarrow> stack \<Rightarrow> stack_op list \<Rightarrow> stack" where
  "exec_ops cm s ops = foldl (apply_op cm) s ops"

section \<open>Notions used to state the properties of the stack\<close>

subsection \<open>The fields after one step\<close>

text \<open>
  The cycle-weighted range sum that \<open>calc_fatigue_degradation\<close> adds to \<open>rf_track\<close> for the
  current voltage snapshot.
\<close>

definition rf_sum :: "cell_model \<Rightarrow> stack \<Rightarrow> real" where
  "rf_sum cm s = sum_list (map (\<lambda>pair. fst pair * snd pair) (count_cycles cm (nonzero (voltage_signal s))))"

text \<open>The cell voltage that \<open>run\<close> passes to \<open>run_stack\<close>.\<close>

definition run_V_cell :: "cell_model \<Rightarrow> stack \<Rightarrow> real \<Rightarrow> real" where
  "run_V_cell cm s P =
     calc_cell_voltage cm (electrolyzer_model cm (P / 1000) (temperature s)) (temperature s)"

subsection \<open>A concrete cell model and stack\<close>

text \<open>
  A cell model with constant answers (current \<open>i\<close>, voltage \<open>v\<close>, mass flow rate \<open>m\<close>,
  no rainflow cycles) and a freshly constructed stack with time step \<open>d\<close> and the three
  rates \<open>r\<close>: the concrete inputs on which the definitions are evaluated.
\<close>

definition const_cell :: "real \<Rightarrow> real \<Rightarrow> real \<Rightarrow> cell_model" where
  "const_cell i v m =
     \<lparr> electrolyzer_model = (\<lambda>P T. i), calc_cell_voltage = (\<lambda>I0 T. v),
       calc_mass_flow_rate = (\<lambda>T I0. m), count_cycles = (\<lambda>xs. []) \<rparr>"

definition fresh_stack :: "real \<Rightarrow> real \<Rightarrow> stack" where
  "fresh_stack d r = init_stack d 60 100 True False r r r (0, 1, 1, 0) 1"

subsection \<open>The operating modes are mutually exclusive\<close>

definition modes_exclusive :: "stack \<Rightarrow> bool" where
  "modes_exclusive s = (\<not> (stack_on s \<and> stack_waiting s))"

subsection \<open>Zero degradation rates\<close>

definition zero_deg :: "stack \<Rightarrow> bool" where
  "zero_deg s = (rate_steady s = 0 \<and> rate_fatigue s = 0 \<and> rate_onoff s = 0 \<and>
                 d_s s = 0 \<and> fatigue_history s = 0 \<and> V_degradation s = 0)"

subsection \<open>Degradation never decreases\<close>

text \<open>
  What the monotonicity needs from outside the stack: the cell model's voltages are not
  negative, and the rainflow count returns ranges and counts that are not negative.
\<close>

definition cell_nonneg :: "cell_model \<Rightarrow> bool" where
  "cell_nonneg cm =
     ((\<forall>i T. 0 \<le> calc_cell_voltage cm i T) \<and>
      (\<forall>xs. \<forall>p \<in> set (count_cycles cm xs). 0 \<le> fst p \<and> 0 \<le> snd p))"

definition deg_inv :: "stack \<Rightarrow> bool" where
  "deg_inv s =
     (0 \<le> rate_steady s \<and> 0 \<le> rate_fatigue s \<and> 0 \<le> rate_onoff s \<and> 0 \<le> dt s \<and>
      0 \<le> cell_voltage s \<and> 0 \<le> V_degradation s \<and>
      fatigue_history s = rate_fatigue s * rf_track s \<and>
      V_degradation s \<le> d_s s + rate_onoff s * of_int (cycle_count s) + fatigue_history s)"

subsection \<open>A waiting stack\<close>

text \<open>A stack just told to start, with the full delay of 600 s ahead of it.\<close>

definition waiting_stack :: stack where
  "waiting_stack = turn_stack_on (fresh_stack 1 0)"

subsection \<open>The hourly fatigue evaluation\<close>







subsection \<open>The wait-time credit\<close>

definition runs :: "real list \<Rightarrow> stack_op list" where
  "runs Ps = map Run Ps"

section \<open>The life estimators (stack.py)\<close>

text \<open>
  \<open>estimate_time_until_replacement\<close> and \<open>estimate_stack_life\<close> divide by
  \<open>V_degradation / d_eol\<close>. What a float division by zero gives depends on the operands:
  Python floats raise \<open>ZeroDivisionError\<close>, numpy float64 scalars give an infinity or nan
  (with a warning). Which of the two \<open>d_eol\<close> and \<open>V_degradation\<close> are is decided by the
  cell model, so it is an argument. Float values are the finite reals, the two
  infinities and nan; the sign of a zero is not tracked (a zero counts as positive).
\<close>

datatype py_error = ZeroDivisionError | IndexError | ValueError

datatype float_kind = PyFloat | NpFloat64

datatype fval = Fin real | PInf | NInf | NaN

fun fneg :: "fval \<Rightarrow> fval" where
  "fneg (Fin x) = Fin (- x)"
| "fneg PInf = NInf"
| "fneg NInf = PInf"
| "fneg NaN = NaN"

text \<open>The sign of a float that is not nan: \<open>-1\<close>, \<open>0\<close> or \<open>1\<close>.\<close>

fun fsgn :: "fval \<Rightarrow> int" where
  "fsgn (Fin x) = (if x < 0 then - 1 else if x = 0 then 0 else 1)"
| "fsgn PInf = 1"
| "fsgn NInf = - 1"
| "fsgn NaN = 0"

text \<open>An infinity with the given sign.\<close>

definition inf_of_sign :: "int \<Rightarrow> fval" where
  "inf_of_sign sg = (if sg < 0 then NInf else PInf)"

fun fmul :: "fval \<Rightarrow> fval \<Rightarrow> fval" where
  "fmul NaN b = NaN"
| "fmul a NaN = NaN"
| "fmul (Fin x) (Fin y) = Fin (x * y)"
| "fmul a b = (if fsgn a = 0 \<or> fsgn b = 0 then NaN else inf_of_sign (fsgn a * fsgn b))"

fun fdiv :: "float_kind \<Rightarrow> fval \<Rightarrow> fval \<Rightarrow> py_error + fval" where
  "fdiv k NaN b = (if k = PyFloat \<and> b = Fin 0 then Inl ZeroDivisionError else Inr NaN)"
| "fdiv k a NaN = Inr NaN"
| "fdiv k (Fin x) (Fin y) =
     (if y \<noteq> 0 then Inr (Fin (x / y))
      else if k = PyFloat then Inl ZeroDivisionError
      else if x = 0 then Inr NaN
      else Inr (inf_of_sign (fsgn (Fin x))))"
| "fdiv k (Fin x) b = Inr (Fin 0)"
| "fdiv k a (Fin y) =
     (if y = 0 then (if k = PyFloat then Inl ZeroDivisionError else Inr a)
      else Inr (inf_of_sign (fsgn a * fsgn (Fin y))))"
| "fdiv k a b = Inr NaN"

definition estimate_time_until_replacement :: "float_kind \<Rightarrow> stack \<Rightarrow> py_error + fval" where
  "estimate_time_until_replacement k s =
     (case fdiv k (Fin (V_degradation s)) (Fin (d_eol s)) of
        Inl e \<Rightarrow> Inl e
      | Inr frac_of_life_used \<Rightarrow>
          (case fdiv k (Fin 1) frac_of_life_used of
             Inl e \<Rightarrow> Inl e
           | Inr recip \<Rightarrow> Inr (fmul recip (Fin (time s / 3600)))))"

definition estimate_stack_life :: "float_kind \<Rightarrow> stack \<Rightarrow> py_error + fval" where
  "estimate_stack_life k s =
     (case fdiv k (Fin (V_degradation s)) (Fin (d_eol s)) of
        Inl e \<Rightarrow> Inl e
      | Inr frac_of_life_used \<Rightarrow>
          (case fdiv k (Fin 1) frac_of_life_used of
             Inl e \<Rightarrow> Inl e
           | Inr recip \<Rightarrow> Inr (fmul recip (Fin (uptime s / 3600)))))"

text \<open>What the claim asks of the result: a value, and that value zero or an infinity.\<close>

fun sentinel :: "py_error + fval \<Rightarrow> bool" where
  "sentinel (Inr (Fin x)) = (x = 0)"
| "sentinel (Inr PInf) = True"
| "sentinel (Inr NInf) = True"
| "sentinel (Inr NaN) = False"
| "sentinel (Inl e) = False"

section \<open>The fleet supervisor (electrolyzer_supervisor.py)\<close>

subsection \<open>Health ranking\<close>

text \<open>
  \<open>np.argsort\<close> belongs to numpy. The source calls it with the default kind, a quicksort
  that is not stable: in which order the positions of equal values come depends on
  numpy's implementation and on the length of the array. It is passed in as a function.
  \<open>is_argsort\<close> says what every kind guarantees on an array: the result lists each
  position once, in ascending order of the values. \<open>insertion_argsort\<close> is the result that
  keeps equal values in index order, as a stable sort does.
\<close>

definition is_argsort :: "(real list \<Rightarrow> nat list) \<Rightarrow> real list \<Rightarrow> bool" where
  "is_argsort asort ds =
     (distinct (asort ds) \<and> set (asort ds) = {0..<length ds}
      \<and> sorted (map (\<lambda>i. ds ! i) (asort ds)))"

definition insertion_argsort :: "real list \<Rightarrow> nat list" where
  "insertion_argsort ds = sort_key (\<lambda>i. ds ! i) [0..<length ds]"

text \<open>
  The two selections return a vector as long as \<open>active\<close>; \<open>deg_state[inact]\<close> raises
  \<open>IndexError\<close> when \<open>deg_state\<close> is too short for one of the indices, and so does
  \<open>inact[deg_inds[0:n]]\<close> for a position that \<open>inact\<close> does not have. The count is a
  natural number: the callers pass the positive difference of two stack counts.
\<close>

definition get_healthiest_inactive ::
  "(real list \<Rightarrow> nat list) \<Rightarrow> real list \<Rightarrow> real list \<Rightarrow> nat \<Rightarrow> py_error + real list" where
  "get_healthiest_inactive asort act deg n_activate =
     (let inact = filter (\<lambda>i. act ! i - 1 \<noteq> 0) [0..<length act]
      in if list_ex (\<lambda>i. length deg \<le> i) inact then Inl IndexError
         else
           (let ds = map (\<lambda>i. deg ! i) inact;
                deg_inds = asort ds
            in if list_ex (\<lambda>j. length inact \<le> j) (take n_activate deg_inds)
               then Inl IndexError
               else
                 (let chosen = map (\<lambda>j. inact ! j) (take n_activate deg_inds)
                  in Inr (map (\<lambda>i. if i \<in> set chosen then 1 else 0) [0..<length act]))))"

definition get_illest_active ::
  "(real list \<Rightarrow> nat list) \<Rightarrow> real list \<Rightarrow> real list \<Rightarrow> nat \<Rightarrow> py_error + real list" where
  "get_illest_active asort act deg n_deactivate =
     (let actv = filter (\<lambda>i. act ! i \<noteq> 0) [0..<length act]
      in if list_ex (\<lambda>i. length deg \<le> i) actv then Inl IndexError
         else
           (let ds = map (\<lambda>i. deg ! i) actv;
                deg_inds = rev (asort ds)
            in if list_ex (\<lambda>j. length actv \<le> j) (take n_deactivate deg_inds)
               then Inl IndexError
               else
                 (let chosen = map (\<lambda>j. actv ! j) (take n_deactivate deg_inds)
                  in Inr (map (\<lambda>i. if i \<in> set chosen then 0 else 1) [0..<length act]))))"

text \<open>The degradations that the two selections hand to \<open>np.argsort\<close>.\<close>

definition inactive_degs :: "real list \<Rightarrow> real list \<Rightarrow> real list" where
  "inactive_degs act deg = map (\<lambda>i. deg ! i) (filter (\<lambda>i. act ! i - 1 \<noteq> 0) [0..<length act])"

definition active_degs :: "real list \<Rightarrow> real list \<Rightarrow> real list" where
  "active_degs act deg = map (\<lambda>i. deg ! i) (filter (\<lambda>i. act ! i \<noteq> 0) [0..<length act])"

text \<open>Healthier: less degraded, or equally degraded with the lower index.\<close>

definition healthier :: "real list \<Rightarrow> nat \<Rightarrow> nat \<Rightarrow> bool" where
  "healthier deg i j = (deg ! i < deg ! j \<or> (deg ! i = deg ! j \<and> i < j))"

text \<open>
  The stacks a selection may choose from, and the positions of a result vector that
  hold a given value.
\<close>

definition inactive_set :: "real list \<Rightarrow> nat set" where
  "inactive_set act = {i. i < length act \<and> act ! i \<noteq> 1}"

definition active_set :: "real list \<Rightarrow> nat set" where
  "active_set act = {i. i < length act \<and> act ! i \<noteq> 0}"

definition selected :: "real list \<Rightarrow> real \<Rightarrow> nat set" where
  "selected t v = {i. i < length t \<and> t ! i = v}"

subsection \<open>State of the supervisor\<close>

text \<open>
  The attributes of \<open>ElectrolyzerSupervisor\<close> that the modelled methods read or write.
  The activity and waiting vectors are numpy float arrays of 0s and 1s; the stores kept
  for plotting are left out.
\<close>

record supervisor =
  n_stacks :: nat
  stack_rating_kW :: real
  stack_rating :: real
  stack_min_power :: real
  active :: "real list"
  waiting :: "real list"
  stack_rotation :: "nat list"
  stacks_on :: nat
  stacks_waiting :: nat
  stacks_waiting_vec :: "real list"
  deg_state :: "real list"
  stacks :: "stack list"

definition turn_off_stack :: "supervisor \<Rightarrow> nat \<Rightarrow> py_error + supervisor" where
  "turn_off_stack sv off_stack =
     (if off_stack < length (active sv) \<and> off_stack < length (waiting sv)
         \<and> off_stack < length (stacks sv)
      then Inr (sv\<lparr>active := (active sv)[off_stack := 0],
                     waiting := (waiting sv)[off_stack := 0],
                     stacks := (stacks sv)[off_stack := turn_stack_off (stacks sv ! off_stack)]\<rparr>)
      else Inl IndexError)"

definition turn_on_stack :: "supervisor \<Rightarrow> nat \<Rightarrow> py_error + supervisor" where
  "turn_on_stack sv on_stack =
     (if on_stack < length (stacks sv) \<and> on_stack < length (waiting sv)
      then Inr (sv\<lparr>stacks := (stacks sv)[on_stack := turn_stack_on (stacks sv ! on_stack)],
                     waiting := (waiting sv)[on_stack := 1]\<rparr>)
      else Inl IndexError)"

subsection \<open>Float arithmetic of numpy\<close>

text \<open>
  numpy arithmetic on float values, where a division by zero gives an infinity or nan
  instead of raising. Comparisons with nan are false.
\<close>

definition np_div :: "fval \<Rightarrow> fval \<Rightarrow> fval" where
  "np_div a b = (case fdiv NpFloat64 a b of Inr v \<Rightarrow> v | Inl e \<Rightarrow> NaN)"

fun fadd :: "fval \<Rightarrow> fval \<Rightarrow> fval" where
  "fadd NaN b = NaN"
| "fadd a NaN = NaN"
| "fadd (Fin x) (Fin y) = Fin (x + y)"
| "fadd (Fin x) b = b"
| "fadd a (Fin y) = a"
| "fadd a b = (if a = b then a else NaN)"

definition fsub :: "fval \<Rightarrow> fval \<Rightarrow> fval" where
  "fsub a b = fadd a (fneg b)"

fun fless :: "fval \<Rightarrow> fval \<Rightarrow> bool" where
  "fless NaN b = False"
| "fless a NaN = False"
| "fless (Fin x) (Fin y) = (x < y)"
| "fless NInf b = (b \<noteq> NInf)"
| "fless a PInf = (a \<noteq> PInf)"
| "fless a b = False"

fun is_fin :: "fval \<Rightarrow> bool" where
  "is_fin (Fin x) = True"
| "is_fin v = False"

text \<open>\<open>int(x)\<close> of a float: truncation towards zero.\<close>

definition py_int :: "real \<Rightarrow> int" where
  "py_int x = (if 0 \<le> x then \<lfloor>x\<rfloor> else \<lceil>x\<rceil>)"

text \<open>\<open>sum(self.active + self.waiting)\<close>: the sum of the elementwise sum of the two vectors.\<close>

definition sum_active_waiting :: "supervisor \<Rightarrow> real" where
  "sum_active_waiting sv = sum_list (map2 (+) (active sv) (waiting sv))"

subsection \<open>Power sharing with rotation\<close>

text \<open>
  The search of the add phase: from position \<open>ij\<close> of the rotation, the first position
  whose stack is not active. Running off the end of the rotation, or a rotation entry
  that is no index of \<open>active\<close>, raises \<open>IndexError\<close>.
\<close>

function find_inactive :: "real list \<Rightarrow> nat list \<Rightarrow> nat \<Rightarrow> py_error + nat" where
  "find_inactive act rot ij =
     (if length rot \<le> ij then Inl IndexError
      else if length act \<le> rot ! ij then Inl IndexError
      else if act ! (rot ! ij) > 0 then find_inactive act rot (ij + 1)
      else Inr ij)"
  by pat_completeness auto

termination
  by (relation "measure (\<lambda>(act, rot, ij). length rot - ij)") auto

text \<open>\<open>for i in range(0, diff)\<close>: each round searches from position \<open>i\<close> and turns that stack on.\<close>

fun turn_on_rounds :: "supervisor \<Rightarrow> nat list \<Rightarrow> py_error + supervisor" where
  "turn_on_rounds sv [] = Inr sv"
| "turn_on_rounds sv (i # rest) =
     (case find_inactive (active sv) (stack_rotation sv) i of
        Inl e \<Rightarrow> Inl e
      | Inr ij \<Rightarrow>
          (case turn_on_stack sv (stack_rotation sv ! ij) of
             Inl e \<Rightarrow> Inl e
           | Inr sv1 \<Rightarrow> turn_on_rounds sv1 rest))"

text \<open>
  The first part of \<open>power_sharing_rotation\<close>, up to the end of the add and shed phase.
  The first division is guarded: by the number of stacks when none is active or waiting.
  \<open>power_in // (stack_rating / 2)\<close> raises \<open>ZeroDivisionError\<close> for a zero rating.
\<close>

definition first_share :: "supervisor \<Rightarrow> real \<Rightarrow> fval" where
  "first_share sv power_in =
     (if sum_active_waiting sv = 0
      then np_div (Fin power_in) (Fin (real (n_stacks sv)))
      else np_div (Fin power_in) (Fin (sum_active_waiting sv)))"

definition add_shed_phase :: "supervisor \<Rightarrow> real \<Rightarrow> py_error + supervisor" where
  "add_shed_phase sv power_in =
     (let P_indv = first_share sv power_in;
          P_indv_kW = np_div P_indv (Fin 1000)
      in if stack_rating sv / 2 = 0 then Inl ZeroDivisionError
         else
           (let stacks_supported = min (real_of_int \<lfloor>power_in / (stack_rating sv / 2)\<rfloor>)
                                       (real (n_stacks sv));
                diff = py_int (stacks_supported - sum_active_waiting sv)
            in if diff > 0 then
                 (if (diff > 1 \<or> fless (Fin (0.8 * stack_rating_kW sv)) P_indv_kW)
                     \<and> sum_list (waiting sv) = 0
                     \<and> sum_list (active sv) \<noteq> real (n_stacks sv)
                  then turn_on_rounds sv [0..<nat diff]
                  else Inr sv)
               else if diff < 0 then
                 (if fless P_indv_kW (Fin (0.2 * stack_rating_kW sv)) \<and> sum_list (active sv) > 0
                  then (case stack_rotation sv of
                          [] \<Rightarrow> Inl IndexError
                        | r # rs \<Rightarrow>
                            (case turn_off_stack sv r of
                               Inl e \<Rightarrow> Inl e
                             | Inr sv1 \<Rightarrow> Inr (sv1\<lparr>stack_rotation := rs @ [r]\<rparr>)))
                  else Inr sv)
               else Inr sv))"

text \<open>
  The second part: the final allocation divides by the number of active and waiting
  stacks, with no guard. A share above the rating is cut to the rating.
  \<open>new_stack_power[0]\<close> raises \<open>IndexError\<close> for a fleet of no stacks.
\<close>

definition final_allocation :: "supervisor \<Rightarrow> real \<Rightarrow> py_error + fval list \<times> fval" where
  "final_allocation sv power_in =
     (let share = np_div (Fin power_in) (Fin (sum_active_waiting sv));
          new_stack_power = replicate (n_stacks sv) share
      in if n_stacks sv = 0 then Inl IndexError
         else if fless (Fin (stack_rating_kW sv)) (np_div (new_stack_power ! 0) (Fin 1000))
         then Inr (replicate (n_stacks sv) (Fin (stack_rating_kW sv * 1000)),
                   fmul (fsub (new_stack_power ! 0) (Fin (stack_rating_kW sv * 1000)))
                        (Fin (real (stacks_on sv))))
         else Inr (new_stack_power, Fin 0))"

definition power_sharing_rotation ::
  "supervisor \<Rightarrow> real \<Rightarrow> py_error + fval list \<times> fval \<times> supervisor" where
  "power_sharing_rotation sv power_in =
     (case add_shed_phase sv power_in of
        Inl e \<Rightarrow> Inl e
      | Inr sv1 \<Rightarrow>
          (case final_allocation sv1 power_in of
             Inl e \<Rightarrow> Inl e
           | Inr (new_stack_power, curtailed_wind) \<Rightarrow>
               Inr (new_stack_power, curtailed_wind, sv1)))"

text \<open>A result is finite when every share and the curtailment are finite floats.\<close>

definition finite_result :: "fval list \<times> fval \<Rightarrow> bool" where
  "finite_result r = (list_all is_fin (fst r) \<and> is_fin (snd r))"

text \<open>A fleet of two 1 kW stacks, none of them active or waiting.\<close>

definition idle_fleet :: supervisor where
  "idle_fleet =
     \<lparr> n_stacks = 2, stack_rating_kW = 1, stack_rating = 1000, stack_min_power = 100,
       active = [0, 0], waiting = [0, 0], stack_rotation = [0, 1],
       stacks_on = 0, stacks_waiting = 0, stacks_waiting_vec = [0, 0], deg_state = [0, 0],
       stacks = [fresh_stack 1 0, fresh_stack 1 0] \<rparr>"

subsection \<open>The control step\<close>

text \<open>
  \<open>control\<close> first calls the allocation method that \<open>control_type\<close> names. A method
  returns the power of each stack and leaves the supervisor changed; the curtailment
  that two of the methods also return is overwritten before it is used. \<open>control\<close> is
  modelled for any such method, given together with whether its name contains \<open>deg\<close>.
  The powers are floats: a method that divides by zero returns infinities or nan.
\<close>

type_synonym policy = "supervisor \<Rightarrow> real \<Rightarrow> py_error + fval list \<times> supervisor"

text \<open>\<open>power_sharing_rotation\<close> as \<open>control\<close> calls it.\<close>

definition power_sharing_policy :: policy where
  "power_sharing_policy sv power_in =
     (case power_sharing_rotation sv power_in of
        Inl e \<Rightarrow> Inl e
      | Inr (stack_power, curtailed_wind, sv1) \<Rightarrow> Inr (stack_power, sv1))"

text \<open>
  The vectors of the supervisor are created with \<open>n_stacks\<close> entries and updated in
  place. A vector of another length makes numpy or the indexing raise; the model
  answers \<open>ValueError\<close> for every such shape.
\<close>

definition shapes_ok :: "supervisor \<Rightarrow> fval list \<Rightarrow> bool" where
  "shapes_ok sv stack_power =
     (length (active sv) = n_stacks sv \<and> length (waiting sv) = n_stacks sv
      \<and> length (stacks_waiting_vec sv) = n_stacks sv \<and> length (deg_state sv) = n_stacks sv
      \<and> length (stacks sv) = n_stacks sv \<and> length stack_power = n_stacks sv)"

text \<open>The status query of a stack as a 0/1 entry.\<close>

definition on_or_waiting_flag :: "stack \<Rightarrow> real" where
  "on_or_waiting_flag s = (if stack_on s \<or> stack_waiting s then 1 else 0)"

text \<open>
  For a \<open>deg\<close> method: the entry of \<open>mismatch = active - on_or_waiting\<close> decides whether
  the stack is turned on (1), turned off (-1) or left alone.
\<close>

definition reconcile_stack :: "real \<Rightarrow> stack \<Rightarrow> stack" where
  "reconcile_stack mismatch s =
     (if mismatch = 1 then turn_stack_on s
      else if mismatch = 0 then s
      else if mismatch = - 1 then turn_stack_off s
      else s)"

definition reconciled_stacks :: "bool \<Rightarrow> supervisor \<Rightarrow> stack list" where
  "reconciled_stacks deg sv =
     (if deg
      then map2 reconcile_stack
             (map2 (-) (active sv) (map on_or_waiting_flag (stacks sv))) (stacks sv)
      else stacks sv)"

text \<open>
  The flag of a stack after \<open>self.stacks[i].run(stack_power[i])\<close>. \<open>run\<close> settles the mode
  in \<open>update_status\<close>, before it reads the power, and assigns neither \<open>stack_on\<close> nor
  \<open>stack_waiting\<close> after that. With a finite power the flag is read from the state that
  \<open>run\<close> leaves. A power that is not finite is appended to the stack's
  \<open>power_input_history\<close> and cannot be a value of the stack model, which is over the
  reals; the flag is then that of \<open>update_status\<close>.
\<close>

definition flag_after_run :: "cell_model \<Rightarrow> stack \<Rightarrow> fval \<Rightarrow> real" where
  "flag_after_run cm s P_in =
     (case P_in of
        Fin p \<Rightarrow> on_or_waiting_flag (snd (snd (snd (run cm s p))))
      | _ \<Rightarrow> on_or_waiting_flag (update_status s))"

text \<open>
  \<open>on_or_waiting\<close> at the end of \<open>control\<close>: zero at first, set by the status query before
  the reconciliation for a \<open>deg\<close> method, and set again for every stack that is on or
  waiting after its step. No entry is ever reset.
\<close>

definition on_or_waiting_final :: "cell_model \<Rightarrow> bool \<Rightarrow> supervisor \<Rightarrow> fval list \<Rightarrow> real list" where
  "on_or_waiting_final cm deg sv stack_power =
     map2 (\<lambda>before (s, P_in). if flag_after_run cm s P_in = 1 then 1 else before)
       (if deg then map on_or_waiting_flag (stacks sv) else replicate (n_stacks sv) 0)
       (zip (reconciled_stacks deg sv) stack_power)"

text \<open>
  \<open>np.dot\<close> of the 0/1 vector with the powers, in float arithmetic: zero times an
  infinity or nan is nan, and a sum with a nan term is nan.
\<close>

definition fdot :: "real list \<Rightarrow> fval list \<Rightarrow> fval" where
  "fdot xs ys = foldl fadd (Fin 0) (map2 (\<lambda>x y. fmul (Fin x) y) xs ys)"

text \<open>
  Python's \<open>max(0, x)\<close>: \<open>x\<close> when \<open>x > 0\<close>, else 0. The comparison with nan is false, so
  \<open>max(0, nan)\<close> is 0.
\<close>

definition py_max0 :: "fval \<Rightarrow> fval" where
  "py_max0 x = (if fless (Fin 0) x then x else Fin 0)"

text \<open>The powers as reals when every one of them is finite.\<close>

fun fin_val :: "fval \<Rightarrow> real" where
  "fin_val (Fin x) = x"
| "fin_val v = 0"

definition finite_powers :: "fval list \<Rightarrow> real list option" where
  "finite_powers stack_power =
     (if list_all is_fin stack_power then Some (map fin_val stack_power) else None)"

text \<open>The results of stepping every stack with its power.\<close>

definition run_results ::
  "cell_model \<Rightarrow> bool \<Rightarrow> supervisor \<Rightarrow> real list \<Rightarrow> (real \<times> real \<times> real \<times> stack) list" where
  "run_results cm deg sv stack_power =
     map2 (\<lambda>s P_in. run cm s P_in) (reconciled_stacks deg sv) stack_power"

text \<open>
  The loop over the stacks: the hydrogen mass, the mass flow rates, the power left
  and the supervisor after it. With a power that is not finite the stacks leave the
  model and there is no result.
\<close>

definition step_stacks ::
  "cell_model \<Rightarrow> bool \<Rightarrow> supervisor \<Rightarrow> fval list
   \<Rightarrow> (real \<times> real list \<times> real \<times> supervisor) option" where
  "step_stacks cm deg sv1 stack_power =
     (case finite_powers stack_power of
        None \<Rightarrow> None
      | Some powers \<Rightarrow>
          (let results = run_results cm deg sv1 powers;
               stacks2 = map (\<lambda>r. snd (snd (snd r))) results;
               H2_mass_flow_rate = map fst results;
               H2_mass_out = sum_list (map (\<lambda>r. fst (snd r)) results);
               power_left = sum_list (map (\<lambda>r. fst (snd (snd r))) results);
               sv2 = sv1\<lparr>stacks := stacks2,
                         deg_state := map V_degradation stacks2,
                         stacks_waiting := 0,
                         stacks_on := length (filter stack_on stacks2),
                         active := map2 (\<lambda>a s. if stack_on s then 1 else a) (active sv1) stacks2,
                         waiting := map (\<lambda>s. if stack_waiting s then 1 else 0) stacks2,
                         stacks_waiting_vec := map (\<lambda>s. if stack_waiting s then 1 else 0) stacks2\<rparr>
           in Some (H2_mass_out, H2_mass_flow_rate, power_left, sv2)))"

text \<open>
  \<open>control\<close> returns the results of the stacks and
  \<open>curtailed_wind = max(0, power_in - np.dot(on_or_waiting, stack_power))\<close>.
\<close>

definition control ::
  "cell_model \<Rightarrow> bool \<Rightarrow> policy \<Rightarrow> supervisor \<Rightarrow> real
   \<Rightarrow> py_error + (real \<times> real list \<times> real \<times> supervisor) option \<times> fval" where
  "control cm deg allocate sv power_in =
     (case allocate sv power_in of
        Inl e \<Rightarrow> Inl e
      | Inr (stack_power, sv1) \<Rightarrow>
          if \<not> shapes_ok sv1 stack_power then Inl ValueError
          else
            (let on_or_waiting = on_or_waiting_final cm deg sv1 stack_power;
                 curtailed_wind = py_max0 (fsub (Fin power_in) (fdot on_or_waiting stack_power))
             in Inr (step_stacks cm deg sv1 stack_power, curtailed_wind)))"

text \<open>
  The power allocated to the stacks that \<open>control\<close> counts as on or waiting: those that
  the status query of a \<open>deg\<close> method found on or waiting before the step, and those
  that are on or waiting after it.
\<close>

definition counted :: "bool \<Rightarrow> stack \<Rightarrow> stack \<Rightarrow> bool" where
  "counted deg before after =
     ((deg \<and> (stack_on before \<or> stack_waiting before)) \<or> stack_on after \<or> stack_waiting after)"

definition allocated_on_or_waiting ::
  "bool \<Rightarrow> stack list \<Rightarrow> stack list \<Rightarrow> real list \<Rightarrow> real" where
  "allocated_on_or_waiting deg before after powers =
     (\<Sum>i<length powers. if counted deg (before ! i) (after ! i) then powers ! i else 0)"

subsection \<open>The baseline method\<close>

text \<open>Python's \<open>xs[i]\<close> for an integer \<open>i\<close>: a negative index counts from the end.\<close>

definition py_index :: "'a list \<Rightarrow> int \<Rightarrow> py_error + nat" where
  "py_index xs i =
     (let n = int (length xs); j = (if i < 0 then n + i else i)
      in if 0 \<le> j \<and> j < n then Inr (nat j) else Inl IndexError)"

text \<open>\<open>self.stacks[ind].turn_stack_on()\<close> or \<open>turn_stack_off()\<close>, then \<open>self.active[ind] = v\<close>.\<close>

definition switch_stack ::
  "(stack \<Rightarrow> stack) \<Rightarrow> real \<Rightarrow> supervisor \<Rightarrow> int \<Rightarrow> py_error + supervisor" where
  "switch_stack f v sv ind =
     (case py_index (stacks sv) ind of
        Inl e \<Rightarrow> Inl e
      | Inr i \<Rightarrow>
          (case py_index (active sv) ind of
             Inl e \<Rightarrow> Inl e
           | Inr j \<Rightarrow> Inr (sv\<lparr>stacks := (stacks sv)[i := f (stacks sv ! i)],
                               active := (active sv)[j := v]\<rparr>)))"

text \<open>The loop that hands the power left over to the stacks in index order.\<close>

fun fill_power :: "supervisor \<Rightarrow> real list \<Rightarrow> real \<Rightarrow> nat list \<Rightarrow> py_error + real list" where
  "fill_power sv P_indv p_avail [] = Inr P_indv"
| "fill_power sv P_indv p_avail (i # rest) =
     (if length P_indv \<le> i then Inl IndexError
      else if p_avail \<ge> stack_rating sv - stack_min_power sv
      then fill_power sv (P_indv[i := P_indv ! i + (stack_rating sv - stack_min_power sv)])
             (p_avail - (stack_rating sv - stack_min_power sv)) rest
      else fill_power sv (P_indv[i := P_indv ! i + p_avail]) 0 rest)"

definition baseline_controller :: policy where
  "baseline_controller sv power_in =
     (case
        (if power_in > sum_list (active sv) * stack_rating sv \<and> power_in > stack_min_power sv
         then switch_stack turn_stack_on 1 sv
                (py_int (min (sum_list (active sv)) (real (n_stacks sv) - 1)))
         else if power_in < sum_list (active sv) * stack_min_power sv
         then switch_stack turn_stack_off 0 sv (py_int (sum_list (active sv) - 1))
         else Inr sv)
      of
        Inl e \<Rightarrow> Inl e
      | Inr sv1 \<Rightarrow>
          (let P_indv = map (\<lambda>a. stack_min_power sv1 * a) (active sv1);
               p_avail = power_in - sum_list P_indv
           in case fill_power sv1 P_indv p_avail [0..<n_stacks sv1] of
                Inl e \<Rightarrow> Inl e
              | Inr P \<Rightarrow> Inr (map Fin P, sv1)))"

text \<open>A fleet of one 1 kW stack with a minimum power of 100 W, the stack off.\<close>

definition single_fleet :: supervisor where
  "single_fleet =
     \<lparr> n_stacks = 1, stack_rating_kW = 1, stack_rating = 1000, stack_min_power = 100,
       active = [0], waiting = [0], stack_rotation = [0],
       stacks_on = 0, stacks_waiting = 0, stacks_waiting_vec = [0], deg_state = [0],
       stacks = [fresh_stack 1 0] \<rparr>"


section \<open>Properties of the stack\<close>

subsection \<open>What each operation leaves alone\<close>

lemma update_degradation_flags:
  "stack_on (update_degradation cm s) = stack_on s"
  "stack_waiting (update_degradation cm s) = stack_waiting s"
  by (simp_all add: update_degradation_def calc_fatigue_degradation_def
      calc_steady_degradation_def calc_onoff_degradation_def Let_def split: prod.splits)

lemma record_step_flags:
  "stack_on (record_step s V P) = stack_on s"
  "stack_waiting (record_step s V P) = stack_waiting s"
  by (simp_all add: record_step_def Let_def)

lemma run_stack_flags:
  "stack_on (snd (snd (snd (run_stack cm s I0 V P)))) = stack_on s"
  "stack_waiting (snd (snd (snd (run_stack cm s I0 V P)))) = stack_waiting s"
  by (simp_all add: run_stack_def Let_def record_step_flags update_degradation_flags
      split: prod.splits)

lemma run_flags:
  "stack_on (apply_op cm s (Run P)) = stack_on (update_status s)"
  "stack_waiting (apply_op cm s (Run P)) = stack_waiting (update_status s)"
  by (simp_all add: run_def Let_def run_stack_flags split: prod.splits)

subsection \<open>The fields after one step\<close>

lemma update_degradation_deg:
  "fatigue_history (update_degradation cm s) =
     (if fatigue_due s then rate_fatigue s * (rf_track s + rf_sum cm s) else fatigue_history s)"
  "rf_track (update_degradation cm s) =
     (if fatigue_due s then rf_track s + rf_sum cm s else rf_track s)"
  "d_s (update_degradation cm s) = d_s s + rate_steady s * cell_voltage s * dt s"
  "V_degradation (update_degradation cm s) =
     d_s s + rate_steady s * cell_voltage s * dt s + rate_onoff s * of_int (cycle_count s)
     + (if fatigue_due s then rate_fatigue s * (rf_track s + rf_sum cm s) else fatigue_history s)"
  by (simp_all add: update_degradation_def calc_fatigue_degradation_def rf_sum_def
      calc_steady_degradation_def calc_onoff_degradation_def Let_def split: prod.splits)

lemma update_degradation_same:
  "dt (update_degradation cm s) = dt s"
  "rate_steady (update_degradation cm s) = rate_steady s"
  "rate_fatigue (update_degradation cm s) = rate_fatigue s"
  "rate_onoff (update_degradation cm s) = rate_onoff s"
  "cycle_count (update_degradation cm s) = cycle_count s"
  "cell_voltage (update_degradation cm s) = cell_voltage s"
  "time (update_degradation cm s) = time s"
  "hourly_counter (update_degradation cm s) = hourly_counter s"
  "hour_change (update_degradation cm s) = hour_change s"
  "voltage_signal (update_degradation cm s) = voltage_signal s"
  "voltage_history (update_degradation cm s) = voltage_history s"
  "uptime (update_degradation cm s) = uptime s"
  "wait_time (update_degradation cm s) = wait_time s"
  "turn_on_time (update_degradation cm s) = turn_on_time s"
  "turn_off_time (update_degradation cm s) = turn_off_time s"
  "turn_on_delay (update_degradation cm s) = turn_on_delay s"
  by (simp_all add: update_degradation_def calc_fatigue_degradation_def
      calc_steady_degradation_def calc_onoff_degradation_def Let_def split: prod.splits)

lemma fatigue_due_upd:
  "fatigue_due (s\<lparr>stack_I := a\<rparr>) = fatigue_due s"
  "fatigue_due (s\<lparr>uptime := b\<rparr>) = fatigue_due s"
  "fatigue_due (s\<lparr>stack_state := c\<rparr>) = fatigue_due s"
  "fatigue_due (s\<lparr>stack_on := p\<rparr>) = fatigue_due s"
  "fatigue_due (s\<lparr>stack_waiting := q\<rparr>) = fatigue_due s"
  by (simp_all add: fatigue_due_def)

lemma rf_sum_upd:
  "rf_sum cm (s\<lparr>stack_I := a\<rparr>) = rf_sum cm s"
  "rf_sum cm (s\<lparr>uptime := b\<rparr>) = rf_sum cm s"
  "rf_sum cm (s\<lparr>stack_state := c\<rparr>) = rf_sum cm s"
  "rf_sum cm (s\<lparr>stack_on := p\<rparr>) = rf_sum cm s"
  "rf_sum cm (s\<lparr>stack_waiting := q\<rparr>) = rf_sum cm s"
  by (simp_all add: rf_sum_def)

lemma record_step_same:
  "V_degradation (record_step s V P) = V_degradation s"
  "d_s (record_step s V P) = d_s s"
  "rf_track (record_step s V P) = rf_track s"
  "fatigue_history (record_step s V P) = fatigue_history s"
  "cycle_count (record_step s V P) = cycle_count s"
  "dt (record_step s V P) = dt s"
  "rate_steady (record_step s V P) = rate_steady s"
  "rate_fatigue (record_step s V P) = rate_fatigue s"
  "rate_onoff (record_step s V P) = rate_onoff s"
  "uptime (record_step s V P) = uptime s"
  "wait_time (record_step s V P) = wait_time s"
  "turn_on_time (record_step s V P) = turn_on_time s"
  "turn_off_time (record_step s V P) = turn_off_time s"
  "turn_on_delay (record_step s V P) = turn_on_delay s"
  by (simp_all add: record_step_def Let_def)

lemma record_step_clock:
  "cell_voltage (record_step s V P) = V"
  "time (record_step s V P) = time s + dt s"
  "hourly_counter (record_step s V P) = \<lfloor>(time s + dt s) / 3600\<rfloor>"
  "hour_change (record_step s V P) = (hourly_counter s \<noteq> \<lfloor>(time s + dt s) / 3600\<rfloor>)"
  by (simp_all add: record_step_def Let_def)

text \<open>The state after \<open>run_stack\<close>, by mode.\<close>

lemma run_stack_state:
  "snd (snd (snd (run_stack cm s I0 V P))) =
     (if stack_on s then
        (let s2 = update_degradation cm (s\<lparr>stack_I := I0\<rparr>)
         in record_step
              (s2\<lparr>stack_state := fst (update_dynamics s2
                      (calc_mass_flow_rate cm (temperature s2) I0 * n_cells s2) (stack_state s2)),
                  uptime := uptime s2 + dt s2\<rparr>)
              (if include_degradation_penalty s then V + V_degradation s else V) P)
      else if stack_waiting s then
        record_step
          (update_degradation cm
             (s\<lparr>stack_state := fst (update_dynamics s 0 (stack_state s)),
                uptime := uptime s + dt s, stack_I := I0\<rparr>)) V P
      else record_step (s\<lparr>stack_state := fst (update_dynamics s 0 (stack_state s))\<rparr>) 0 P)"
  by (simp add: run_stack_def Let_def case_prod_beta)

lemma run_stack_power_left:
  "fst (snd (snd (run_stack cm s I0 V P))) =
     (if stack_on s then
        P - calc_stack_power cm (update_degradation cm (s\<lparr>stack_I := I0\<rparr>)) I0
              (Some (if include_degradation_penalty s then V + V_degradation s else V)) * 1000
      else if stack_waiting s then 0 else P)"
  by (simp add: run_stack_def Let_def case_prod_beta)

lemmas run_stack_simps = run_stack_state Let_def record_step_same record_step_clock
  update_degradation_deg update_degradation_same fatigue_due_upd rf_sum_upd

lemma run_stack_deg:
  "V_degradation (snd (snd (snd (run_stack cm s I0 V P)))) =
     (if stack_on s \<or> stack_waiting s
      then d_s s + rate_steady s * cell_voltage s * dt s + rate_onoff s * of_int (cycle_count s)
           + (if fatigue_due s then rate_fatigue s * (rf_track s + rf_sum cm s) else fatigue_history s)
      else V_degradation s)"
  "d_s (snd (snd (snd (run_stack cm s I0 V P)))) =
     (if stack_on s \<or> stack_waiting s then d_s s + rate_steady s * cell_voltage s * dt s else d_s s)"
  "fatigue_history (snd (snd (snd (run_stack cm s I0 V P)))) =
     (if (stack_on s \<or> stack_waiting s) \<and> fatigue_due s
      then rate_fatigue s * (rf_track s + rf_sum cm s) else fatigue_history s)"
  "rf_track (snd (snd (snd (run_stack cm s I0 V P)))) =
     (if (stack_on s \<or> stack_waiting s) \<and> fatigue_due s
      then rf_track s + rf_sum cm s else rf_track s)"
  "cell_voltage (snd (snd (snd (run_stack cm s I0 V P)))) =
     (if stack_on s then (if include_degradation_penalty s then V + V_degradation s else V)
      else if stack_waiting s then V else 0)"
  "uptime (snd (snd (snd (run_stack cm s I0 V P)))) =
     (if stack_on s \<or> stack_waiting s then uptime s + dt s else uptime s)"
  by (simp_all add: run_stack_simps)

lemma run_stack_same:
  "cycle_count (snd (snd (snd (run_stack cm s I0 V P)))) = cycle_count s"
  "dt (snd (snd (snd (run_stack cm s I0 V P)))) = dt s"
  "rate_steady (snd (snd (snd (run_stack cm s I0 V P)))) = rate_steady s"
  "rate_fatigue (snd (snd (snd (run_stack cm s I0 V P)))) = rate_fatigue s"
  "rate_onoff (snd (snd (snd (run_stack cm s I0 V P)))) = rate_onoff s"
  "wait_time (snd (snd (snd (run_stack cm s I0 V P)))) = wait_time s"
  "turn_on_time (snd (snd (snd (run_stack cm s I0 V P)))) = turn_on_time s"
  "turn_off_time (snd (snd (snd (run_stack cm s I0 V P)))) = turn_off_time s"
  "turn_on_delay (snd (snd (snd (run_stack cm s I0 V P)))) = turn_on_delay s"
  "time (snd (snd (snd (run_stack cm s I0 V P)))) = time s + dt s"
  "hourly_counter (snd (snd (snd (run_stack cm s I0 V P)))) = \<lfloor>(time s + dt s) / 3600\<rfloor>"
  "hour_change (snd (snd (snd (run_stack cm s I0 V P)))) = (hourly_counter s \<noteq> \<lfloor>(time s + dt s) / 3600\<rfloor>)"
  by (simp_all add: run_stack_simps)

lemma update_status_same:
  "V_degradation (update_status s) = V_degradation s"
  "d_s (update_status s) = d_s s"
  "rf_track (update_status s) = rf_track s"
  "fatigue_history (update_status s) = fatigue_history s"
  "cycle_count (update_status s) = cycle_count s"
  "cell_voltage (update_status s) = cell_voltage s"
  "dt (update_status s) = dt s"
  "rate_steady (update_status s) = rate_steady s"
  "rate_fatigue (update_status s) = rate_fatigue s"
  "rate_onoff (update_status s) = rate_onoff s"
  "uptime (update_status s) = uptime s"
  "wait_time (update_status s) = wait_time s"
  "turn_on_time (update_status s) = turn_on_time s"
  "turn_off_time (update_status s) = turn_off_time s"
  "turn_on_delay (update_status s) = turn_on_delay s"
  "time (update_status s) = time s"
  "hourly_counter (update_status s) = hourly_counter s"
  "hour_change (update_status s) = hour_change s"
  "voltage_signal (update_status s) = voltage_signal s"
  "include_degradation_penalty (update_status s) = include_degradation_penalty s"
  "fatigue_due (update_status s) = fatigue_due s"
  "rf_sum cm (update_status s) = rf_sum cm s"
  by (simp_all add: update_status_def fatigue_due_def rf_sum_def)

lemma run_unfold:
  "apply_op cm s (Run P) =
     snd (snd (snd (run_stack cm (update_status s)
       (fst (if hydrogen_degradation_penalty (update_status s)
             then run_h2_deg_penalty cm (update_status s) P
             else run_power_deg_penalty cm (update_status s) P))
       (snd (if hydrogen_degradation_penalty (update_status s)
             then run_h2_deg_penalty cm (update_status s) P
             else run_power_deg_penalty cm (update_status s) P)) P)))"
  by (simp add: run_def Let_def case_prod_beta)

lemma run_V_cell_eq:
  "snd (if hydrogen_degradation_penalty (update_status s)
        then run_h2_deg_penalty cm (update_status s) P
        else run_power_deg_penalty cm (update_status s) P) = run_V_cell cm s P"
  by (simp add: run_h2_deg_penalty_def run_power_deg_penalty_def run_V_cell_def Let_def
      update_status_def)

lemma update_status_drawing:
  "(stack_on (update_status s) \<or> stack_waiting (update_status s)) =
   (stack_on s \<or> stack_waiting s)"
  by (simp add: update_status_def)

lemma run_deg:
  "V_degradation (apply_op cm s (Run P)) =
     (if stack_on s \<or> stack_waiting s
      then d_s s + rate_steady s * cell_voltage s * dt s + rate_onoff s * of_int (cycle_count s)
           + (if fatigue_due s then rate_fatigue s * (rf_track s + rf_sum cm s) else fatigue_history s)
      else V_degradation s)"
  "d_s (apply_op cm s (Run P)) =
     (if stack_on s \<or> stack_waiting s then d_s s + rate_steady s * cell_voltage s * dt s else d_s s)"
  "fatigue_history (apply_op cm s (Run P)) =
     (if (stack_on s \<or> stack_waiting s) \<and> fatigue_due s
      then rate_fatigue s * (rf_track s + rf_sum cm s) else fatigue_history s)"
  "rf_track (apply_op cm s (Run P)) =
     (if (stack_on s \<or> stack_waiting s) \<and> fatigue_due s
      then rf_track s + rf_sum cm s else rf_track s)"
  "uptime (apply_op cm s (Run P)) =
     (if stack_on s \<or> stack_waiting s then uptime s + dt s else uptime s)"
  unfolding run_unfold run_stack_deg update_status_same update_status_drawing
  by simp_all

lemma run_cell_voltage:
  "cell_voltage (apply_op cm s (Run P)) =
     (if stack_on (update_status s)
      then (if include_degradation_penalty s
            then run_V_cell cm s P + V_degradation s else run_V_cell cm s P)
      else if stack_waiting (update_status s) then run_V_cell cm s P else 0)"
  unfolding run_unfold run_stack_deg update_status_same run_V_cell_eq
  by simp

lemma run_same:
  "cycle_count (apply_op cm s (Run P)) = cycle_count s"
  "dt (apply_op cm s (Run P)) = dt s"
  "rate_steady (apply_op cm s (Run P)) = rate_steady s"
  "rate_fatigue (apply_op cm s (Run P)) = rate_fatigue s"
  "rate_onoff (apply_op cm s (Run P)) = rate_onoff s"
  "wait_time (apply_op cm s (Run P)) = wait_time s"
  "turn_on_time (apply_op cm s (Run P)) = turn_on_time s"
  "turn_off_time (apply_op cm s (Run P)) = turn_off_time s"
  "turn_on_delay (apply_op cm s (Run P)) = turn_on_delay s"
  "time (apply_op cm s (Run P)) = time s + dt s"
  "hourly_counter (apply_op cm s (Run P)) = \<lfloor>(time s + dt s) / 3600\<rfloor>"
  "hour_change (apply_op cm s (Run P)) = (hourly_counter s \<noteq> \<lfloor>(time s + dt s) / 3600\<rfloor>)"
  unfolding run_unfold run_stack_same update_status_same
  by simp_all

subsection \<open>The operating modes are mutually exclusive\<close>

lemma modes_exclusive_init:
  "modes_exclusive (init_stack d T n ip hp rs rf ro ss de)"
  by (simp add: modes_exclusive_def init_stack_def Let_def)

lemma modes_exclusive_update_status:
  "modes_exclusive s \<Longrightarrow> modes_exclusive (update_status s)"
  by (simp add: modes_exclusive_def update_status_def)

lemma modes_exclusive_turn_on:
  "modes_exclusive s \<Longrightarrow> modes_exclusive (turn_stack_on s)"
  by (simp add: modes_exclusive_def turn_stack_on_def Let_def)

lemma turn_stack_off_clears:
  "\<not> stack_on (turn_stack_off s) \<and> \<not> stack_waiting (turn_stack_off s)"
  by (simp add: turn_stack_off_def Let_def)

lemma modes_exclusive_apply_op:
  "modes_exclusive s \<Longrightarrow> modes_exclusive (apply_op cm s x)"
proof (cases x)
  case (Run P)
  assume "modes_exclusive s"
  then have "modes_exclusive (update_status s)"
    by (rule modes_exclusive_update_status)
  then show ?thesis
    using Run by (simp add: modes_exclusive_def run_flags del: apply_op.simps)
next
  case TurnOn
  assume "modes_exclusive s"
  then show ?thesis using TurnOn by (simp add: modes_exclusive_turn_on)
next
  case TurnOff
  show ?thesis using TurnOff turn_stack_off_clears [of s]
    by (simp add: modes_exclusive_def)
qed

lemma modes_exclusive_exec_ops:
  "modes_exclusive s \<Longrightarrow> modes_exclusive (exec_ops cm s ops)"
  unfolding exec_ops_def
  by (induction ops arbitrary: s) (simp_all add: modes_exclusive_apply_op)

text \<open>
  C9. A stack is never both on and waiting: the constructor gives neither flag, each of
  \<open>update_status\<close>, \<open>turn_stack_on\<close>, \<open>turn_stack_off\<close> and \<open>run\<close> keeps the two flags
  exclusive, hence so does every sequence of calls; \<open>turn_stack_on\<close> leaves a stack that
  is on as it is, and \<open>turn_stack_off\<close> clears both flags.
\<close>

theorem stack_modes_mutually_exclusive:
  assumes "modes_exclusive s"
  shows "modes_exclusive (init_stack d T n ip hp rs rf ro ss de)
       \<and> modes_exclusive (update_status s)
       \<and> modes_exclusive (turn_stack_on s)
       \<and> modes_exclusive (turn_stack_off s)
       \<and> modes_exclusive (snd (snd (snd (run cm s P))))
       \<and> modes_exclusive (exec_ops cm s ops)
       \<and> (if stack_on s then turn_stack_on s = s else stack_waiting (turn_stack_on s))
       \<and> \<not> stack_on (turn_stack_off s) \<and> \<not> stack_waiting (turn_stack_off s)"
proof -
  have run: "modes_exclusive (snd (snd (snd (run cm s P))))"
    using modes_exclusive_apply_op [OF assms, of cm "Run P"] by simp
  have off: "modes_exclusive (turn_stack_off s)"
    using modes_exclusive_apply_op [OF assms, of cm TurnOff] by simp
  have on: "if stack_on s then turn_stack_on s = s else stack_waiting (turn_stack_on s)"
    by (simp add: turn_stack_on_def Let_def)
  show ?thesis
    using assms run off on turn_stack_off_clears [of s]
    by (simp add: modes_exclusive_init modes_exclusive_update_status
        modes_exclusive_turn_on modes_exclusive_exec_ops)
qed

theorem stack_modes_mutually_exclusive_witness:
  "modes_exclusive (fresh_stack 1 0)
   \<and> modes_exclusive (exec_ops (const_cell 1 2 3) (fresh_stack 1 0) [TurnOn, Run 5, TurnOff])
   \<and> stack_waiting (turn_stack_on (fresh_stack 1 0))"
proof -
  have h: "modes_exclusive (fresh_stack 1 0)"
    by (simp add: fresh_stack_def modes_exclusive_init)
  have w: "\<not> stack_on (fresh_stack 1 0)"
    by (simp add: fresh_stack_def init_stack_def Let_def)
  show ?thesis
    using h w stack_modes_mutually_exclusive [OF h,
        of 1 60 100 True False 0 0 0 "(0, 1, 1, 0)" 1 "const_cell 1 2 3" 5
           "[TurnOn, Run 5, TurnOff]"]
    by simp
qed

lemma turn_stack_on_same:
  "V_degradation (turn_stack_on s) = V_degradation s"
  "d_s (turn_stack_on s) = d_s s"
  "rf_track (turn_stack_on s) = rf_track s"
  "fatigue_history (turn_stack_on s) = fatigue_history s"
  "cycle_count (turn_stack_on s) = cycle_count s"
  "cell_voltage (turn_stack_on s) = cell_voltage s"
  "dt (turn_stack_on s) = dt s"
  "rate_steady (turn_stack_on s) = rate_steady s"
  "rate_fatigue (turn_stack_on s) = rate_fatigue s"
  "rate_onoff (turn_stack_on s) = rate_onoff s"
  "uptime (turn_stack_on s) = uptime s"
  "turn_off_time (turn_stack_on s) = turn_off_time s"
  "turn_on_delay (turn_stack_on s) = turn_on_delay s"
  "time (turn_stack_on s) = time s"
  "hourly_counter (turn_stack_on s) = hourly_counter s"
  "hour_change (turn_stack_on s) = hour_change s"
  "voltage_signal (turn_stack_on s) = voltage_signal s"
  by (simp_all add: turn_stack_on_def Let_def)

lemma turn_stack_off_same:
  "V_degradation (turn_stack_off s) = V_degradation s"
  "d_s (turn_stack_off s) = d_s s"
  "rf_track (turn_stack_off s) = rf_track s"
  "fatigue_history (turn_stack_off s) = fatigue_history s"
  "cell_voltage (turn_stack_off s) = cell_voltage s"
  "dt (turn_stack_off s) = dt s"
  "rate_steady (turn_stack_off s) = rate_steady s"
  "rate_fatigue (turn_stack_off s) = rate_fatigue s"
  "rate_onoff (turn_stack_off s) = rate_onoff s"
  "uptime (turn_stack_off s) = uptime s"
  "turn_on_time (turn_stack_off s) = turn_on_time s"
  "turn_on_delay (turn_stack_off s) = turn_on_delay s"
  "time (turn_stack_off s) = time s"
  "hourly_counter (turn_stack_off s) = hourly_counter s"
  "hour_change (turn_stack_off s) = hour_change s"
  "voltage_signal (turn_stack_off s) = voltage_signal s"
  by (simp_all add: turn_stack_off_def Let_def)

lemma turn_stack_off_cycle_count:
  "cycle_count (turn_stack_off s) =
     (if stack_on s \<or> stack_waiting s then cycle_count s + 1 else cycle_count s)"
  by (simp add: turn_stack_off_def Let_def)

subsection \<open>Zero degradation rates\<close>

lemma zero_deg_init: "zero_deg (init_stack d T n ip hp 0 0 0 ss de)"
  by (simp add: zero_deg_def init_stack_def Let_def)

lemma zero_deg_apply_op: "zero_deg s \<Longrightarrow> zero_deg (apply_op cm s x)"
proof (cases x)
  case (Run P)
  assume "zero_deg s"
  then show ?thesis
    unfolding Run zero_deg_def run_deg run_same by simp
next
  case TurnOn
  assume "zero_deg s"
  then show ?thesis
    unfolding TurnOn zero_deg_def apply_op.simps turn_stack_on_same by simp
next
  case TurnOff
  assume "zero_deg s"
  then show ?thesis
    unfolding TurnOff zero_deg_def apply_op.simps turn_stack_off_same by simp
qed

lemma zero_deg_exec_ops: "zero_deg s \<Longrightarrow> zero_deg (exec_ops cm s ops)"
  unfolding exec_ops_def
  by (induction ops arbitrary: s) (simp_all add: zero_deg_apply_op)

text \<open>
  C8. A stack constructed with the three degradation rates equal to zero reports
  \<open>V_degradation = 0\<close> after every sequence of \<open>run\<close>, \<open>turn_stack_on\<close> and
  \<open>turn_stack_off\<close> calls, of any length.
\<close>

theorem zero_rates_no_degradation:
  "V_degradation (exec_ops cm (init_stack d T n ip hp 0 0 0 ss de) ops) = 0"
  using zero_deg_exec_ops [OF zero_deg_init, of cm d T n ip hp ss de ops]
  by (simp add: zero_deg_def)

subsection \<open>Degradation never decreases\<close>

lemma rf_sum_nonneg: "cell_nonneg cm \<Longrightarrow> 0 \<le> rf_sum cm s"
proof -
  assume cm: "cell_nonneg cm"
  have "0 \<le> fst p * snd p" if "p \<in> set (count_cycles cm xs)" for p xs
    using cm that unfolding cell_nonneg_def by (meson mult_nonneg_nonneg)
  then show ?thesis
    unfolding rf_sum_def by (intro sum_list_nonneg) auto
qed

lemma run_V_cell_nonneg: "cell_nonneg cm \<Longrightarrow> 0 \<le> run_V_cell cm s P"
  by (simp add: run_V_cell_def cell_nonneg_def)

lemma deg_inv_init:
  "0 \<le> rs \<Longrightarrow> 0 \<le> rf \<Longrightarrow> 0 \<le> ro \<Longrightarrow> 0 \<le> d \<Longrightarrow>
   deg_inv (init_stack d T n ip hp rs rf ro ss de)"
  by (simp add: deg_inv_def init_stack_def Let_def)

lemma run_mono:
  assumes cm: "cell_nonneg cm" and inv: "deg_inv s"
  shows "V_degradation s \<le> V_degradation (apply_op cm s (Run P))"
proof -
  have a: "0 \<le> rate_steady s * cell_voltage s * dt s"
    using inv by (simp add: deg_inv_def)
  have b: "0 \<le> rate_fatigue s * rf_sum cm s"
    using inv rf_sum_nonneg [OF cm, of s] by (simp add: deg_inv_def)
  have c: "fatigue_history s = rate_fatigue s * rf_track s"
    and d: "V_degradation s \<le> d_s s + rate_onoff s * of_int (cycle_count s) + fatigue_history s"
    using inv by (simp_all add: deg_inv_def)
  show ?thesis
    unfolding run_deg using a b c d by (simp add: distrib_left)
qed

lemma run_deg_inv:
  assumes cm: "cell_nonneg cm" and inv: "deg_inv s"
  shows "deg_inv (apply_op cm s (Run P))"
proof -
  have m: "V_degradation s \<le> V_degradation (apply_op cm s (Run P))"
    by (rule run_mono [OF cm inv])
  have v: "0 \<le> V_degradation s" using inv by (simp add: deg_inv_def)
  have cv: "0 \<le> cell_voltage (apply_op cm s (Run P))"
    unfolding run_cell_voltage using run_V_cell_nonneg [OF cm, of s P] v by simp
  have fh: "fatigue_history (apply_op cm s (Run P)) =
            rate_fatigue s * rf_track (apply_op cm s (Run P))"
    unfolding run_deg using inv by (simp add: deg_inv_def)
  have ub: "V_degradation (apply_op cm s (Run P)) \<le>
            d_s (apply_op cm s (Run P)) + rate_onoff s * of_int (cycle_count s)
            + fatigue_history (apply_op cm s (Run P))"
    unfolding run_deg using inv by (simp add: deg_inv_def)
  show ?thesis
    unfolding deg_inv_def run_same
    using inv m v cv fh ub by (simp add: deg_inv_def)
qed

lemma turn_on_deg_inv: "deg_inv s \<Longrightarrow> deg_inv (turn_stack_on s)"
  unfolding deg_inv_def turn_stack_on_same by simp

lemma turn_off_deg_inv:
  assumes inv: "deg_inv s"
  shows "deg_inv (turn_stack_off s)"
proof -
  have "rate_onoff s * of_int (cycle_count s) \<le> rate_onoff s * of_int (cycle_count (turn_stack_off s))"
    unfolding turn_stack_off_cycle_count using inv
    by (simp add: deg_inv_def mult_left_mono)
  then show ?thesis
    using inv unfolding deg_inv_def turn_stack_off_same by simp
qed

lemma apply_op_deg_inv:
  "cell_nonneg cm \<Longrightarrow> deg_inv s \<Longrightarrow> deg_inv (apply_op cm s x)"
  by (cases x) (simp_all add: run_deg_inv turn_on_deg_inv turn_off_deg_inv del: apply_op.simps(1))

lemma apply_op_mono:
  "cell_nonneg cm \<Longrightarrow> deg_inv s \<Longrightarrow> V_degradation s \<le> V_degradation (apply_op cm s x)"
  by (cases x) (simp_all add: run_mono turn_stack_on_same turn_stack_off_same del: apply_op.simps(1))

lemma exec_ops_deg_inv:
  "cell_nonneg cm \<Longrightarrow> deg_inv s \<Longrightarrow> deg_inv (exec_ops cm s ops)"
  unfolding exec_ops_def
  by (induction ops arbitrary: s) (simp_all add: apply_op_deg_inv)

text \<open>
  C3. For a stack constructed with non-negative rates and time step, a cell model with
  non-negative voltages and a rainflow count with non-negative ranges and counts: after
  any sequence of calls, one more call (\<open>run\<close>, \<open>turn_stack_on\<close> or \<open>turn_stack_off\<close>)
  never lowers \<open>V_degradation\<close>.
\<close>

theorem degradation_monotone:
  assumes "cell_nonneg cm" and "0 \<le> rs" and "0 \<le> rf" and "0 \<le> ro" and "0 \<le> d"
  shows "V_degradation (exec_ops cm (init_stack d T n ip hp rs rf ro ss de) ops)
       \<le> V_degradation (apply_op cm (exec_ops cm (init_stack d T n ip hp rs rf ro ss de) ops) x)"
  using assms
  by (intro apply_op_mono exec_ops_deg_inv deg_inv_init)

lemma const_cell_nonneg: "0 \<le> v \<Longrightarrow> cell_nonneg (const_cell i v m)"
  by (simp add: cell_nonneg_def const_cell_def)

theorem degradation_monotone_witness:
  "cell_nonneg (const_cell 1 2 3) \<and>
   V_degradation (exec_ops (const_cell 1 2 3) (fresh_stack 1 1) [TurnOn, Run 5])
     \<le> V_degradation (apply_op (const_cell 1 2 3)
          (exec_ops (const_cell 1 2 3) (fresh_stack 1 1) [TurnOn, Run 5]) (Run 5))"
proof -
  have c: "cell_nonneg (const_cell 1 2 3)"
    by (rule const_cell_nonneg) simp
  show ?thesis
    using c degradation_monotone [OF c, of 1 1 1 1 60 100 True False "(0, 1, 1, 0)" 1
        "[TurnOn, Run 5]" "Run 5"]
    by (simp add: fresh_stack_def)
qed

subsection \<open>A waiting stack\<close>

lemma run_eq:
  "run cm s P =
     run_stack cm (update_status s)
       (fst (if hydrogen_degradation_penalty (update_status s)
             then run_h2_deg_penalty cm (update_status s) P
             else run_power_deg_penalty cm (update_status s) P))
       (snd (if hydrogen_degradation_penalty (update_status s)
             then run_h2_deg_penalty cm (update_status s) P
             else run_power_deg_penalty cm (update_status s) P)) P"
  by (simp add: run_def Let_def case_prod_beta)

lemma run_power_left_waiting:
  "\<not> stack_on (update_status s) \<Longrightarrow> stack_waiting (update_status s) \<Longrightarrow>
   fst (snd (snd (run cm s P))) = 0"
  unfolding run_eq run_stack_power_left by simp

lemma run_power_left_off:
  "\<not> stack_on (update_status s) \<Longrightarrow> \<not> stack_waiting (update_status s) \<Longrightarrow>
   fst (snd (snd (run cm s P))) = P"
  unfolding run_eq run_stack_power_left by simp

lemma run_mass_out_not_on:
  "\<not> stack_on (update_status s) \<Longrightarrow> fst (snd (run cm s P)) = 0"
  unfolding run_eq by (simp add: run_stack_def Let_def case_prod_beta)

text \<open>
  C1 (as the code has it). When the stack is waiting after the automatic check of
  \<open>update_status\<close>, \<open>run\<close> returns \<open>power_left = 0\<close> for every \<open>P_in\<close> (the requested power
  counts as drawn, none of it is reported back) and a produced mass of 0; the uptime
  grows by \<open>dt\<close> and the degradation is updated as \<open>update_degradation\<close> does on the
  stack: the steady term grows by \<open>rate_steady * cell_voltage * dt\<close>.
\<close>

theorem waiting_power_left_zero:
  assumes "\<not> stack_on (update_status s)" and "stack_waiting (update_status s)"
  shows "fst (snd (snd (run cm s P_in))) = 0
       \<and> fst (snd (run cm s P_in)) = 0
       \<and> uptime (snd (snd (snd (run cm s P_in)))) = uptime s + dt s
       \<and> d_s (snd (snd (snd (run cm s P_in)))) = d_s s + rate_steady s * cell_voltage s * dt s
       \<and> V_degradation (snd (snd (snd (run cm s P_in)))) = V_degradation (update_degradation cm s)"
proof -
  have w: "stack_on s \<or> stack_waiting s"
    using assms(2) update_status_drawing [of s] by blast
  have st: "snd (snd (snd (run cm s P_in))) = apply_op cm s (Run P_in)"
    by simp
  show ?thesis
    unfolding st run_deg update_degradation_deg
    using w run_power_left_waiting [OF assms, of cm P_in] run_mass_out_not_on [OF assms(1), of cm P_in]
    by simp
qed

lemma waiting_stack_waiting:
  "\<not> stack_on (update_status waiting_stack)" "stack_waiting (update_status waiting_stack)"
  by (simp_all add: waiting_stack_def fresh_stack_def init_stack_def turn_stack_on_def
      update_status_def Let_def)

theorem waiting_power_left_zero_witness:
  "stack_waiting (update_status waiting_stack)
   \<and> fst (snd (snd (run (const_cell 1 2 3) waiting_stack 5))) = 0
   \<and> uptime (snd (snd (snd (run (const_cell 1 2 3) waiting_stack 5)))) = 1"
proof -
  have u: "uptime waiting_stack = 0" "dt waiting_stack = 1"
    by (simp_all add: waiting_stack_def fresh_stack_def init_stack_def turn_stack_on_def Let_def)
  show ?thesis
    using waiting_power_left_zero [OF waiting_stack_waiting, of "const_cell 1 2 3" 5]
      waiting_stack_waiting u
    by simp
qed

theorem waiting_power_left_counterexample:
  "stack_waiting (update_status waiting_stack)
   \<and> fst (snd (snd (run (const_cell 1 2 3) waiting_stack 5))) \<noteq> 5"
  using run_power_left_waiting [OF waiting_stack_waiting, of "const_cell 1 2 3" 5]
    waiting_stack_waiting
  by simp

subsection \<open>The hourly fatigue evaluation\<close>

lemma exec_ops_Cons: "exec_ops cm s (x # xs) = exec_ops cm (apply_op cm s x) xs"
  by (simp add: exec_ops_def)













subsection \<open>The wait-time credit\<close>

text \<open>\<open>k\<close> consecutive \<open>run\<close> steps with the same power.\<close>

lemma turn_stack_on_wait:
  "\<not> stack_on s \<Longrightarrow> \<not> stack_waiting s \<Longrightarrow>
   wait_time (turn_stack_on s) = min (wait_time s + (time s - turn_off_time s)) (turn_on_delay s)
   \<and> turn_on_time (turn_stack_on s) = time s
   \<and> stack_waiting (turn_stack_on s) \<and> \<not> stack_on (turn_stack_on s)"
  by (simp add: turn_stack_on_def Let_def)

lemma turn_stack_off_wait:
  "stack_on s \<or> stack_waiting s \<Longrightarrow>
   wait_time (turn_stack_off s) = max 0 (wait_time s - (time s - turn_on_time s))
   \<and> turn_off_time (turn_stack_off s) = time s"
  by (simp add: turn_stack_off_def Let_def)

lemma exec_runs_same:
  "wait_time (exec_ops cm s (runs Ps)) = wait_time s
   \<and> turn_on_time (exec_ops cm s (runs Ps)) = turn_on_time s
   \<and> turn_off_time (exec_ops cm s (runs Ps)) = turn_off_time s
   \<and> turn_on_delay (exec_ops cm s (runs Ps)) = turn_on_delay s
   \<and> dt (exec_ops cm s (runs Ps)) = dt s
   \<and> time (exec_ops cm s (runs Ps)) = time s + real (length Ps) * dt s"
proof (induction Ps arbitrary: s)
  case Nil
  show ?case by (simp add: runs_def exec_ops_def)
next
  case (Cons P Ps)
  have c: "exec_ops cm s (runs (P # Ps)) = exec_ops cm (apply_op cm s (Run P)) (runs Ps)"
    by (simp add: runs_def exec_ops_Cons)
  show ?case
    unfolding c using Cons.IH [of "apply_op cm s (Run P)"]
    by (simp add: run_same algebra_simps del: apply_op.simps)
qed

lemma exec_runs_drawing:
  "(stack_on (exec_ops cm s (runs Ps)) \<or> stack_waiting (exec_ops cm s (runs Ps)))
   = (stack_on s \<or> stack_waiting s)"
proof (induction Ps arbitrary: s)
  case Nil
  show ?case by (simp add: runs_def exec_ops_def)
next
  case (Cons P Ps)
  have c: "exec_ops cm s (runs (P # Ps)) = exec_ops cm (apply_op cm s (Run P)) (runs Ps)"
    by (simp add: runs_def exec_ops_Cons)
  show ?case
    unfolding c Cons.IH run_flags by (rule update_status_drawing)
qed

lemma exec_ops_append: "exec_ops cm s (xs @ ys) = exec_ops cm (exec_ops cm s xs) ys"
  by (simp add: exec_ops_def)

text \<open>
  The wait time after: turn on, \<open>length Ps\<close> steps, turn off, \<open>length Qs\<close> steps, turn on
  again, for a stack that starts off.
\<close>

lemma restart_wait_time:
  assumes off: "\<not> stack_on s" "\<not> stack_waiting s"
  shows "wait_time (exec_ops cm s (TurnOn # runs Ps @ TurnOff # runs Qs @ [TurnOn])) =
         min (max 0 (min (wait_time s + (time s - turn_off_time s)) (turn_on_delay s)
                     - real (length Ps) * dt s)
              + real (length Qs) * dt s)
             (turn_on_delay s)"
proof -
  define s1 where "s1 = turn_stack_on s"
  define s2 where "s2 = exec_ops cm s1 (runs Ps)"
  define s3 where "s3 = turn_stack_off s2"
  define s4 where "s4 = exec_ops cm s3 (runs Qs)"
  have split: "exec_ops cm s (TurnOn # runs Ps @ TurnOff # runs Qs @ [TurnOn]) = turn_stack_on s4"
    unfolding s4_def s3_def s2_def s1_def
    by (simp add: exec_ops_Cons exec_ops_append) (simp add: exec_ops_def)
  have f1: "wait_time s1 = min (wait_time s + (time s - turn_off_time s)) (turn_on_delay s)"
    "turn_on_time s1 = time s" "stack_waiting s1" "time s1 = time s" "dt s1 = dt s"
    "turn_on_delay s1 = turn_on_delay s"
    unfolding s1_def using turn_stack_on_wait [OF off] by (simp_all add: turn_stack_on_same)
  have f2: "wait_time s2 = wait_time s1" "turn_on_time s2 = time s"
    "time s2 = time s + real (length Ps) * dt s" "dt s2 = dt s"
    "turn_on_delay s2 = turn_on_delay s" "stack_on s2 \<or> stack_waiting s2"
    unfolding s2_def using exec_runs_same [of cm s1 Ps] exec_runs_drawing [of cm s1 Ps] f1
    by simp_all
  have f3: "wait_time s3 = max 0 (wait_time s1 - real (length Ps) * dt s)"
    "turn_off_time s3 = time s2" "time s3 = time s2" "dt s3 = dt s"
    "turn_on_delay s3 = turn_on_delay s" "\<not> stack_on s3" "\<not> stack_waiting s3"
    unfolding s3_def using turn_stack_off_wait [OF f2(6)] turn_stack_off_clears [of s2] f2
    by (simp_all add: turn_stack_off_same)
  have d4: "\<not> (stack_on s4 \<or> stack_waiting s4)"
    unfolding s4_def exec_runs_drawing using f3 by simp
  have f4: "wait_time s4 = wait_time s3" "turn_off_time s4 = time s2"
    "time s4 = time s2 + real (length Qs) * dt s" "turn_on_delay s4 = turn_on_delay s"
    unfolding s4_def using exec_runs_same [of cm s3 Qs] f3 by simp_all
  have "wait_time (turn_stack_on s4) =
        min (wait_time s4 + (time s4 - turn_off_time s4)) (turn_on_delay s4)"
    using turn_stack_on_wait [of s4] d4 by simp
  then show ?thesis
    unfolding split using f4 f3 f1 by simp
qed

text \<open>
  C6 (as the code has it). For a stack that is off: turning it on sets the wait time to
  \<open>min(wait_time + (turn_on_time - turn_off_time), turn_on_delay)\<close>; turning it off
  after an on-time \<open>e\<close> leaves \<open>max(0, wait_time - e)\<close>; the second turn-on, a gap \<open>g\<close>
  later, adds the gap back, again capped by the delay. The second wait time is below
  the full delay exactly when what was left plus the gap is below it: always when the
  stack ran for a positive time and is turned on again at once, and not when the gap is
  as long as the on-time was.
\<close>

theorem restart_wait_credit:
  assumes "\<not> stack_on s" and "\<not> stack_waiting s"
  shows "wait_time (turn_stack_on s)
           = min (wait_time s + (time s - turn_off_time s)) (turn_on_delay s)
       \<and> wait_time (exec_ops cm s (TurnOn # runs Ps @ [TurnOff]))
           = max 0 (wait_time (turn_stack_on s) - real (length Ps) * dt s)
       \<and> wait_time (exec_ops cm s (TurnOn # runs Ps @ TurnOff # runs Qs @ [TurnOn]))
           = min (max 0 (wait_time (turn_stack_on s) - real (length Ps) * dt s)
                  + real (length Qs) * dt s)
                 (turn_on_delay s)
       \<and> (wait_time (exec_ops cm s (TurnOn # runs Ps @ TurnOff # runs Qs @ [TurnOn]))
            < turn_on_delay s
          \<longleftrightarrow> max 0 (wait_time (turn_stack_on s) - real (length Ps) * dt s)
                + real (length Qs) * dt s < turn_on_delay s)
       \<and> (0 < dt s \<and> Ps \<noteq> [] \<and> Qs = [] \<and> 0 < turn_on_delay s \<longrightarrow>
            wait_time (exec_ops cm s (TurnOn # runs Ps @ TurnOff # runs Qs @ [TurnOn]))
            < turn_on_delay s)"
proof -
  have w1: "wait_time (turn_stack_on s)
           = min (wait_time s + (time s - turn_off_time s)) (turn_on_delay s)"
    using turn_stack_on_wait [OF assms] by simp
  have r: "wait_time (exec_ops cm s (TurnOn # runs Ps @ TurnOff # runs Qs @ [TurnOn]))
           = min (max 0 (wait_time (turn_stack_on s) - real (length Ps) * dt s)
                  + real (length Qs) * dt s)
                 (turn_on_delay s)"
    unfolding w1 by (rule restart_wait_time [OF assms])
  have drawing: "stack_on (exec_ops cm (turn_stack_on s) (runs Ps))
               \<or> stack_waiting (exec_ops cm (turn_stack_on s) (runs Ps))"
    unfolding exec_runs_drawing using turn_stack_on_wait [OF assms] by simp
  have off: "wait_time (exec_ops cm s (TurnOn # runs Ps @ [TurnOff]))
           = max 0 (wait_time (turn_stack_on s) - real (length Ps) * dt s)"
    using turn_stack_off_wait [OF drawing] exec_runs_same [of cm "turn_stack_on s" Ps]
      turn_stack_on_wait [OF assms]
    by (simp add: exec_ops_Cons exec_ops_append turn_stack_on_same)
       (simp add: exec_ops_def turn_stack_on_same)
  have lt: "min (max 0 (wait_time (turn_stack_on s) - real (length Ps) * dt s)) (turn_on_delay s)
            < turn_on_delay s"
    if "0 < dt s" "Ps \<noteq> []" "0 < turn_on_delay s"
  proof -
    have "0 < real (length Ps) * dt s" using that by simp
    moreover have "wait_time (turn_stack_on s) \<le> turn_on_delay s" unfolding w1 by simp
    ultimately show ?thesis using that(3) by simp
  qed
  have iff: "(min a b < b) = (a < b)" for a b :: real
    by auto
  have last: "0 < dt s \<and> Ps \<noteq> [] \<and> Qs = [] \<and> 0 < turn_on_delay s \<longrightarrow>
      min (max 0 (wait_time (turn_stack_on s) - real (length Ps) * dt s)
           + real (length Qs) * dt s) (turn_on_delay s) < turn_on_delay s"
    using lt by simp
  show ?thesis
    unfolding r off iff using w1 last [unfolded iff] by blast
qed

theorem restart_wait_credit_witness:
  "\<not> stack_on (fresh_stack 10 0) \<and> \<not> stack_waiting (fresh_stack 10 0)
   \<and> wait_time (exec_ops (const_cell 1 2 3) (fresh_stack 10 0)
        (TurnOn # runs [0, 0] @ TurnOff # runs [] @ [TurnOn])) = 580
   \<and> turn_on_delay (fresh_stack 10 0) = 600"
proof -
  have a: "\<not> stack_on (fresh_stack 10 0)" "\<not> stack_waiting (fresh_stack 10 0)"
    by code_simp+
  have b: "wait_time (turn_stack_on (fresh_stack 10 0)) = 600" "dt (fresh_stack 10 0) = 10"
    "turn_on_delay (fresh_stack 10 0) = 600"
    by code_simp+
  show ?thesis
    using restart_wait_credit [OF a, of "const_cell 1 2 3" "[0, 0]" "[]"] a b
    by simp
qed

text \<open>
  Turned on, run for 10 s of the 600 s delay, turned off, left off for 10 s, turned on
  again: the wait time is the full delay again.
\<close>

theorem restart_wait_credit_counterexample:
  "stack_waiting (exec_ops (const_cell 1 2 3) (fresh_stack 10 0) [TurnOn, Run 0])
   \<and> time (exec_ops (const_cell 1 2 3) (fresh_stack 10 0) [TurnOn, Run 0]) = 10
   \<and> turn_on_delay (fresh_stack 10 0) = 600
   \<and> wait_time (exec_ops (const_cell 1 2 3) (fresh_stack 10 0)
        [TurnOn, Run 0, TurnOff, Run 0, TurnOn]) = 600"
  by code_simp

section \<open>Properties of the life estimators\<close>

lemma estimators_fresh:
  "0 < de \<Longrightarrow>
   estimate_time_until_replacement PyFloat (init_stack d T n ip hp rs rf ro ss de) = Inl ZeroDivisionError \<and>
   estimate_stack_life PyFloat (init_stack d T n ip hp rs rf ro ss de) = Inl ZeroDivisionError \<and>
   estimate_time_until_replacement NpFloat64 (init_stack d T n ip hp rs rf ro ss de) = Inr NaN \<and>
   estimate_stack_life NpFloat64 (init_stack d T n ip hp rs rf ro ss de) = Inr NaN"
  by (simp add: estimate_time_until_replacement_def estimate_stack_life_def init_stack_def Let_def
      inf_of_sign_def)

text \<open>
  C7 at the failing input. On a freshly constructed stack (\<open>V_degradation = 0\<close>, no time
  elapsed, \<open>d_eol = 1\<close>) neither estimator returns zero or an infinity: with Python
  floats the division \<open>1 / frac_of_life_used\<close> raises \<open>ZeroDivisionError\<close>, with numpy
  floats it gives an infinity that the product with the zero hours turns into nan.
\<close>

theorem life_estimators_no_sentinel:
  "\<not> sentinel (estimate_time_until_replacement k (init_stack d T n ip hp rs rf ro ss 1))
   \<and> \<not> sentinel (estimate_stack_life k (init_stack d T n ip hp rs rf ro ss 1))
   \<and> estimate_time_until_replacement PyFloat (init_stack d T n ip hp rs rf ro ss 1)
       = Inl ZeroDivisionError
   \<and> estimate_stack_life NpFloat64 (init_stack d T n ip hp rs rf ro ss 1) = Inr NaN"
  using estimators_fresh [of 1 d T n ip hp rs rf ro ss]
  by (cases k) simp_all

section \<open>Properties of the fleet supervisor\<close>

subsection \<open>Health ranking\<close>

lemma insort_key_cong_set:
  assumes "\<And>y. y \<in> insert x (set ys) \<Longrightarrow> f y = g y"
  shows "insort_key f x ys = insort_key g x ys"
  using assms
proof (induction ys)
  case Nil
  show ?case by simp
next
  case (Cons y ys)
  have fx: "f x = g x" and fy: "f y = g y"
    by (rule Cons.prems, simp)+
  have "insort_key f x ys = insort_key g x ys"
    by (rule Cons.IH, rule Cons.prems) auto
  then show ?case
    by (simp only: insort_key.simps fx fy)
qed

lemma sort_key_cong_set:
  assumes "\<And>y. y \<in> set xs \<Longrightarrow> f y = g y"
  shows "sort_key f xs = sort_key g xs"
  using assms
proof (induction xs)
  case Nil
  show ?case by simp
next
  case (Cons x xs)
  have ih: "sort_key f xs = sort_key g xs"
    by (rule Cons.IH, rule Cons.prems) simp
  have "insort_key f x (sort_key g xs) = insort_key g x (sort_key g xs)"
    by (rule insort_key_cong_set, rule Cons.prems) simp
  then show ?case
    by (simp only: sort_key_simps ih)
qed

lemma map_insort_key:
  "map h (insort_key (\<lambda>p. g (h p)) x ys) = insort_key g (h x) (map h ys)"
  by (induction ys) simp_all

lemma map_sort_key:
  "map h (sort_key (\<lambda>p. g (h p)) xs) = sort_key g (map h xs)"
proof (induction xs)
  case Nil
  show ?case by simp
next
  case (Cons x xs)
  have "map h (sort_key (\<lambda>p. g (h p)) (x # xs))
        = map h (insort_key (\<lambda>p. g (h p)) x (sort_key (\<lambda>p. g (h p)) xs))"
    by simp
  also have "\<dots> = insort_key g (h x) (map h (sort_key (\<lambda>p. g (h p)) xs))"
    by (rule map_insort_key)
  also have "\<dots> = insort_key g (h x) (sort_key g (map h xs))"
    by (simp only: Cons.IH)
  also have "\<dots> = sort_key g (map h (x # xs))"
    by simp
  finally show ?case .
qed

lemma argsort_positions:
  "map (\<lambda>j. xs ! j) (insertion_argsort (map f xs)) = sort_key f xs"
proof -
  have key: "sort_key (\<lambda>i. map f xs ! i) [0..<length xs]
             = sort_key (\<lambda>p. f (xs ! p)) [0..<length xs]"
    by (rule sort_key_cong_set) simp
  have "map (\<lambda>j. xs ! j) (sort_key (\<lambda>p. f (xs ! p)) [0..<length xs])
        = sort_key f (map (\<lambda>j. xs ! j) [0..<length xs])"
    by (rule map_sort_key)
  also have "\<dots> = sort_key f xs"
    by (simp only: map_nth)
  finally show ?thesis
    unfolding insertion_argsort_def length_map key .
qed

lemma insort_key_ranked:
  fixes deg :: "real list"
  assumes "sorted_wrt (healthier deg) ys" and "\<forall>y \<in> set ys. x < y"
  shows "sorted_wrt (healthier deg) (insort_key (\<lambda>i. deg ! i) x ys)"
  using assms
proof (induction ys)
  case Nil
  show ?case by simp
next
  case (Cons y ys)
  show ?case
  proof (cases "deg ! x \<le> deg ! y")
    case True
    have tail: "\<forall>z \<in> set ys. healthier deg y z"
      using Cons.prems(1) by simp
    have "healthier deg x z" if "z \<in> set (y # ys)" for z
    proof -
      have "z = y \<or> z \<in> set ys" using that by simp
      then have "deg ! y \<le> deg ! z"
      proof
        assume "z = y"
        then show ?thesis by simp
      next
        assume "z \<in> set ys"
        then have "healthier deg y z" using tail by blast
        then show ?thesis unfolding healthier_def by linarith
      qed
      moreover have "x < z" using that Cons.prems(2) by blast
      ultimately show ?thesis using True unfolding healthier_def by linarith
    qed
    then have "\<forall>z \<in> set (y # ys). healthier deg x z" by blast
    then show ?thesis using True Cons.prems(1) by simp
  next
    case False
    have "healthier deg y x" using False unfolding healthier_def by linarith
    moreover have "sorted_wrt (healthier deg) (insort_key (\<lambda>i. deg ! i) x ys)"
      using Cons by simp
    moreover have "\<forall>z \<in> set ys. healthier deg y z"
      using Cons.prems(1) by simp
    ultimately show ?thesis
      using False by (simp add: set_insort_key)
  qed
qed

lemma sort_key_ranked:
  fixes deg :: "real list"
  assumes "sorted_wrt (<) xs"
  shows "sorted_wrt (healthier deg) (sort_key (\<lambda>i. deg ! i) xs)"
  using assms
proof (induction xs)
  case Nil
  show ?case by simp
next
  case (Cons x xs)
  then show ?case by (simp add: insort_key_ranked)
qed

lemma sorted_wrt_take_drop:
  assumes "sorted_wrt R ys" and "i \<in> set (take n ys)" and "j \<in> set (drop n ys)"
  shows "R i j"
proof -
  have "sorted_wrt R (take n ys @ drop n ys)" using assms(1) by simp
  then show ?thesis using assms(2,3) unfolding sorted_wrt_append by blast
qed

lemma candidates_sorted: "sorted_wrt (<) (filter P [0..<n])"
  by (rule sorted_wrt_filter) (simp add: sorted_wrt_upt)

lemma take_selection:
  fixes ys :: "nat list"
  assumes d: "distinct ys" and s: "sorted_wrt R ys"
  shows "card (set (take k ys)) = min k (length ys)"
    and "\<forall>i \<in> set (take k ys). \<forall>j \<in> set ys - set (take k ys). R i j"
proof -
  have "card (set (take k ys)) = length (take k ys)"
    by (rule distinct_card) (simp add: d)
  then show "card (set (take k ys)) = min k (length ys)"
    by (simp add: min.commute)
  have "set ys = set (take k ys) \<union> set (drop k ys)"
    by (metis append_take_drop_id set_append)
  then have "j \<in> set (drop k ys)" if "j \<in> set ys - set (take k ys)" for j
    using that by blast
  then show "\<forall>i \<in> set (take k ys). \<forall>j \<in> set ys - set (take k ys). R i j"
    using sorted_wrt_take_drop [OF s] by blast
qed

lemma mark_vector:
  assumes "C \<subseteq> {..<n}" and "a \<noteq> b"
  shows "selected (map (\<lambda>i. if i \<in> C then a else b) [0..<n]) a = C"
    and "length (map (\<lambda>i. if i \<in> C then a else b) [0..<n]) = n"
    and "set (map (\<lambda>i. if i \<in> C then a else b) [0..<n]) \<subseteq> {a, b}"
  using assms by (auto simp: selected_def split: if_splits)


lemma is_argsort_insertion: "is_argsort insertion_argsort ds"
  by (simp add: is_argsort_def insertion_argsort_def)

text \<open>The candidates in the order of an argsort of their degradations.\<close>

lemma argsort_order:
  assumes a: "is_argsort asort (map f xs)" and d: "distinct xs"
  shows "distinct (map (\<lambda>j. xs ! j) (asort (map f xs)))"
    and "set (map (\<lambda>j. xs ! j) (asort (map f xs))) = set xs"
    and "sorted (map f (map (\<lambda>j. xs ! j) (asort (map f xs))))"
    and "\<forall>j \<in> set (asort (map f xs)). j < length xs"
proof -
  let ?P = "asort (map f xs)"
  have dp: "distinct ?P" and sp: "set ?P = {0..<length xs}"
    and so: "sorted (map (\<lambda>i. map f xs ! i) ?P)"
    using a by (simp_all add: is_argsort_def)
  show rng: "\<forall>j \<in> set ?P. j < length xs"
    using sp by simp
  have inj: "inj_on (\<lambda>j. xs ! j) (set ?P)"
    unfolding sp using d by (auto simp: inj_on_def nth_eq_iff_index_eq)
  show "distinct (map (\<lambda>j. xs ! j) ?P)"
    using dp inj by (simp add: distinct_map)
  have "(\<lambda>j. xs ! j) ` {0..<length xs} = set xs"
    by (auto simp: set_conv_nth)
  then show "set (map (\<lambda>j. xs ! j) ?P) = set xs"
    using sp by simp
  have "map (\<lambda>i. map f xs ! i) ?P = map (\<lambda>j. f (xs ! j)) ?P"
    by (rule map_cong [OF refl]) (use rng in simp)
  also have "\<dots> = map f (map (\<lambda>j. xs ! j) ?P)"
    by (simp add: comp_def)
  finally have eq: "map (\<lambda>i. map f xs ! i) ?P = map f (map (\<lambda>j. xs ! j) ?P)" .
  show "sorted (map f (map (\<lambda>j. xs ! j) ?P))"
    using so unfolding eq .
qed

lemma candidates_distinct: "distinct (filter P [0..<n])"
  by simp

lemma healthiest_selection:
  assumes len: "length act \<le> length deg"
    and srt: "is_argsort asort (inactive_degs act deg)"
  shows "\<exists>t. get_healthiest_inactive asort act deg k = Inr t
           \<and> length t = length act \<and> set t \<subseteq> {0, 1}
           \<and> selected t 1 \<subseteq> inactive_set act
           \<and> card (selected t 1) = min k (card (inactive_set act))
           \<and> (\<forall>i \<in> selected t 1. \<forall>j \<in> inactive_set act - selected t 1. deg ! i \<le> deg ! j)
           \<and> (asort (inactive_degs act deg) = insertion_argsort (inactive_degs act deg) \<longrightarrow>
                (\<forall>i \<in> selected t 1. \<forall>j \<in> inactive_set act - selected t 1. healthier deg i j))"
proof -
  define inact where "inact = filter (\<lambda>i. act ! i - 1 \<noteq> 0) [0..<length act]"
  define P where "P = asort (map (\<lambda>i. deg ! i) inact)"
  define ys where "ys = map (\<lambda>j. inact ! j) P"
  define t :: "real list"
    where "t = map (\<lambda>i. if i \<in> set (take k ys) then 1 else 0) [0..<length act]"
  have ds: "inactive_degs act deg = map (\<lambda>i. deg ! i) inact"
    by (simp add: inactive_degs_def inact_def)
  have srt': "is_argsort asort (map (\<lambda>i. deg ! i) inact)"
    using srt unfolding ds .
  have dist: "distinct inact"
    unfolding inact_def by simp
  have ord: "distinct ys" "set ys = set inact" "sorted (map (\<lambda>i. deg ! i) ys)"
    "\<forall>j \<in> set P. j < length inact"
    unfolding ys_def P_def by (rule argsort_order [OF srt' dist])+
  have ok1: "\<not> list_ex (\<lambda>i. length deg \<le> i) inact"
    unfolding inact_def list_ex_iff using len by auto
  have "j < length inact" if "j \<in> set (take k P)" for j
    using that ord(4) set_take_subset [of k P] by blast
  then have ok2: "\<not> list_ex (\<lambda>j. length inact \<le> j) (take k P)"
    unfolding list_ex_iff by fastforce
  have ch: "map (\<lambda>j. inact ! j) (take k P) = take k ys"
    unfolding ys_def by (rule take_map [symmetric])
  have res: "get_healthiest_inactive asort act deg k = Inr t"
    unfolding get_healthiest_inactive_def inact_def [symmetric] Let_def P_def [symmetric]
    using ok1 ok2 by (simp add: ch t_def)
  have cand: "set inact = inactive_set act"
    unfolding inact_def inactive_set_def by auto
  have ys: "set ys = inactive_set act" "length ys = card (inactive_set act)"
    using ord(2) cand distinct_card [OF ord(1)] by simp_all
  have ranked: "sorted_wrt (\<lambda>i j. deg ! i \<le> deg ! j) ys"
    using ord(3) by (simp add: sorted_map)
  have stable: "sorted_wrt (healthier deg) ys"
    if "asort (inactive_degs act deg) = insertion_argsort (inactive_degs act deg)"
  proof -
    have "P = insertion_argsort (map (\<lambda>i. deg ! i) inact)"
      using that unfolding ds P_def .
    then have "ys = sort_key (\<lambda>i. deg ! i) inact"
      unfolding ys_def by (simp only: argsort_positions)
    then show ?thesis
      unfolding inact_def by (simp only: sort_key_ranked [OF candidates_sorted])
  qed
  have sub: "set (take k ys) \<subseteq> inactive_set act"
    using set_take_subset [of k ys] ys(1) by simp
  then have lt: "set (take k ys) \<subseteq> {..<length act}"
    unfolding inactive_set_def by auto
  have sel: "selected t 1 = set (take k ys)" and lent: "length t = length act"
    and vals: "set t \<subseteq> {1, 0}"
    unfolding t_def using mark_vector [OF lt, of 1 0] by simp_all
  have tie: "\<forall>i \<in> set (take k ys). \<forall>j \<in> set ys - set (take k ys). healthier deg i j"
    if "asort (inactive_degs act deg) = insertion_argsort (inactive_degs act deg)"
    by (rule take_selection(2) [OF ord(1) stable [OF that]])
  have "get_healthiest_inactive asort act deg k = Inr t
        \<and> length t = length act \<and> set t \<subseteq> {0, 1}
        \<and> selected t 1 \<subseteq> inactive_set act
        \<and> card (selected t 1) = min k (card (inactive_set act))
        \<and> (\<forall>i \<in> selected t 1. \<forall>j \<in> inactive_set act - selected t 1. deg ! i \<le> deg ! j)
        \<and> (asort (inactive_degs act deg) = insertion_argsort (inactive_degs act deg) \<longrightarrow>
             (\<forall>i \<in> selected t 1. \<forall>j \<in> inactive_set act - selected t 1. healthier deg i j))"
    unfolding sel
    using res lent vals sub take_selection [OF ord(1) ranked, of k] tie
    unfolding ys by auto
  then show ?thesis by (rule exI)
qed

lemma illest_selection:
  assumes len: "length act \<le> length deg"
    and srt: "is_argsort asort (active_degs act deg)"
  shows "\<exists>u. get_illest_active asort act deg k = Inr u
           \<and> length u = length act \<and> set u \<subseteq> {0, 1}
           \<and> selected u 0 \<subseteq> active_set act
           \<and> card (selected u 0) = min k (card (active_set act))
           \<and> (\<forall>i \<in> selected u 0. \<forall>j \<in> active_set act - selected u 0. deg ! j \<le> deg ! i)
           \<and> (asort (active_degs act deg) = insertion_argsort (active_degs act deg) \<longrightarrow>
                (\<forall>i \<in> selected u 0. \<forall>j \<in> active_set act - selected u 0. healthier deg j i))"
proof -
  define actv where "actv = filter (\<lambda>i. act ! i \<noteq> 0) [0..<length act]"
  define P where "P = asort (map (\<lambda>i. deg ! i) actv)"
  define zs where "zs = map (\<lambda>j. actv ! j) P"
  define ys where "ys = rev zs"
  define u :: "real list"
    where "u = map (\<lambda>i. if i \<in> set (take k ys) then 0 else 1) [0..<length act]"
  have ds: "active_degs act deg = map (\<lambda>i. deg ! i) actv"
    by (simp add: active_degs_def actv_def)
  have srt': "is_argsort asort (map (\<lambda>i. deg ! i) actv)"
    using srt unfolding ds .
  have dist: "distinct actv"
    unfolding actv_def by simp
  have ord: "distinct zs" "set zs = set actv" "sorted (map (\<lambda>i. deg ! i) zs)"
    "\<forall>j \<in> set P. j < length actv"
    unfolding zs_def P_def by (rule argsort_order [OF srt' dist])+
  have dys: "distinct ys"
    unfolding ys_def using ord(1) by simp
  have ok1: "\<not> list_ex (\<lambda>i. length deg \<le> i) actv"
    unfolding actv_def list_ex_iff using len by auto
  have "j < length actv" if "j \<in> set (take k (rev P))" for j
    using that ord(4) set_take_subset [of k "rev P"] by auto
  then have ok2: "\<not> list_ex (\<lambda>j. length actv \<le> j) (take k (rev P))"
    unfolding list_ex_iff by fastforce
  have ch: "map (\<lambda>j. actv ! j) (take k (rev P)) = take k ys"
    unfolding ys_def zs_def by (simp only: take_map rev_map)
  have res: "get_illest_active asort act deg k = Inr u"
    unfolding get_illest_active_def actv_def [symmetric] Let_def P_def [symmetric]
    using ok1 ok2 by (simp add: ch u_def)
  have cand: "set actv = active_set act"
    unfolding actv_def active_set_def by auto
  have ys: "set ys = active_set act" "length ys = card (active_set act)"
    unfolding ys_def using ord(2) cand distinct_card [OF ord(1)] by simp_all
  have "sorted_wrt (\<lambda>i j. deg ! i \<le> deg ! j) zs"
    using ord(3) by (simp add: sorted_map)
  then have ranked: "sorted_wrt (\<lambda>i j. deg ! j \<le> deg ! i) ys"
    unfolding ys_def by (simp add: sorted_wrt_rev)
  have stable: "sorted_wrt (\<lambda>i j. healthier deg j i) ys"
    if "asort (active_degs act deg) = insertion_argsort (active_degs act deg)"
  proof -
    have "P = insertion_argsort (map (\<lambda>i. deg ! i) actv)"
      using that unfolding ds P_def .
    then have "zs = sort_key (\<lambda>i. deg ! i) actv"
      unfolding zs_def by (simp only: argsort_positions)
    then have "sorted_wrt (healthier deg) zs"
      unfolding actv_def by (simp only: sort_key_ranked [OF candidates_sorted])
    then show ?thesis
      unfolding ys_def by (simp add: sorted_wrt_rev)
  qed
  have sub: "set (take k ys) \<subseteq> active_set act"
    using set_take_subset [of k ys] ys(1) by simp
  then have lt: "set (take k ys) \<subseteq> {..<length act}"
    unfolding active_set_def by auto
  have sel: "selected u 0 = set (take k ys)" and lenu: "length u = length act"
    and vals: "set u \<subseteq> {0, 1}"
    unfolding u_def using mark_vector [OF lt, of 0 1] by simp_all
  have tie: "\<forall>i \<in> set (take k ys). \<forall>j \<in> set ys - set (take k ys). healthier deg j i"
    if "asort (active_degs act deg) = insertion_argsort (active_degs act deg)"
    by (rule take_selection(2) [OF dys stable [OF that]])
  have "get_illest_active asort act deg k = Inr u
        \<and> length u = length act \<and> set u \<subseteq> {0, 1}
        \<and> selected u 0 \<subseteq> active_set act
        \<and> card (selected u 0) = min k (card (active_set act))
        \<and> (\<forall>i \<in> selected u 0. \<forall>j \<in> active_set act - selected u 0. deg ! j \<le> deg ! i)
        \<and> (asort (active_degs act deg) = insertion_argsort (active_degs act deg) \<longrightarrow>
             (\<forall>i \<in> selected u 0. \<forall>j \<in> active_set act - selected u 0. healthier deg j i))"
    unfolding sel
    using res lenu vals sub take_selection [OF dys ranked, of k] tie
    unfolding ys by auto
  then show ?thesis by (rule exI)
qed

text \<open>On an array of one entry every argsort gives the one position.\<close>

lemma is_argsort_single: "is_argsort asort [x] \<Longrightarrow> asort [x] = [0]"
proof -
  assume "is_argsort asort [x]"
  then have d: "distinct (asort [x])" and s: "set (asort [x]) = {0}"
    by (simp_all add: is_argsort_def)
  have "length (asort [x]) = card (set (asort [x]))"
    by (rule distinct_card [OF d, symmetric])
  then have "length (asort [x]) = 1"
    using s by simp
  then obtain a where "asort [x] = [a]"
    by (cases "asort [x]") auto
  then show ?thesis using s by simp
qed

text \<open>
  C4 (as the code has it). With a degradation vector at least as long as the activity
  vector, and whatever order \<open>np.argsort\<close> gives to equal values, both selections return
  a 0/1 vector of the length of \<open>active\<close>. \<open>get_healthiest_inactive\<close> marks with 1
  exactly \<open>min(k, number of inactive stacks)\<close> inactive stacks, none of them more degraded
  than an inactive stack it leaves out. \<open>get_illest_active\<close> marks with 0 exactly
  \<open>min(k, number of active stacks)\<close> active stacks, none of them less degraded than an
  active stack it leaves in. Where \<open>np.argsort\<close> returns equal values in index order,
  equal degradations go to the lower index in the first selection and to the higher
  index in the second, which reverses the order.
\<close>

theorem health_ranking_selection:
  assumes "length act \<le> length deg"
    and "is_argsort asort (inactive_degs act deg)"
    and "is_argsort asort (active_degs act deg)"
  shows "\<exists>t u. get_healthiest_inactive asort act deg k = Inr t
           \<and> length t = length act \<and> set t \<subseteq> {0, 1}
           \<and> selected t 1 \<subseteq> inactive_set act
           \<and> card (selected t 1) = min k (card (inactive_set act))
           \<and> (\<forall>i \<in> selected t 1. \<forall>j \<in> inactive_set act - selected t 1. deg ! i \<le> deg ! j)
           \<and> (asort (inactive_degs act deg) = insertion_argsort (inactive_degs act deg) \<longrightarrow>
                (\<forall>i \<in> selected t 1. \<forall>j \<in> inactive_set act - selected t 1. healthier deg i j))
           \<and> get_illest_active asort act deg k = Inr u
           \<and> length u = length act \<and> set u \<subseteq> {0, 1}
           \<and> selected u 0 \<subseteq> active_set act
           \<and> card (selected u 0) = min k (card (active_set act))
           \<and> (\<forall>i \<in> selected u 0. \<forall>j \<in> active_set act - selected u 0. deg ! j \<le> deg ! i)
           \<and> (asort (active_degs act deg) = insertion_argsort (active_degs act deg) \<longrightarrow>
                (\<forall>i \<in> selected u 0. \<forall>j \<in> active_set act - selected u 0. healthier deg j i))"
proof -
  obtain t where t: "get_healthiest_inactive asort act deg k = Inr t
           \<and> length t = length act \<and> set t \<subseteq> {0, 1}
           \<and> selected t 1 \<subseteq> inactive_set act
           \<and> card (selected t 1) = min k (card (inactive_set act))
           \<and> (\<forall>i \<in> selected t 1. \<forall>j \<in> inactive_set act - selected t 1. deg ! i \<le> deg ! j)
           \<and> (asort (inactive_degs act deg) = insertion_argsort (inactive_degs act deg) \<longrightarrow>
                (\<forall>i \<in> selected t 1. \<forall>j \<in> inactive_set act - selected t 1. healthier deg i j))"
    using healthiest_selection [OF assms(1,2), of k] ..
  obtain u where u: "get_illest_active asort act deg k = Inr u
           \<and> length u = length act \<and> set u \<subseteq> {0, 1}
           \<and> selected u 0 \<subseteq> active_set act
           \<and> card (selected u 0) = min k (card (active_set act))
           \<and> (\<forall>i \<in> selected u 0. \<forall>j \<in> active_set act - selected u 0. deg ! j \<le> deg ! i)
           \<and> (asort (active_degs act deg) = insertion_argsort (active_degs act deg) \<longrightarrow>
                (\<forall>i \<in> selected u 0. \<forall>j \<in> active_set act - selected u 0. healthier deg j i))"
    using illest_selection [OF assms(1,3), of k] ..
  have "get_healthiest_inactive asort act deg k = Inr t
           \<and> length t = length act \<and> set t \<subseteq> {0, 1}
           \<and> selected t 1 \<subseteq> inactive_set act
           \<and> card (selected t 1) = min k (card (inactive_set act))
           \<and> (\<forall>i \<in> selected t 1. \<forall>j \<in> inactive_set act - selected t 1. deg ! i \<le> deg ! j)
           \<and> (asort (inactive_degs act deg) = insertion_argsort (inactive_degs act deg) \<longrightarrow>
                (\<forall>i \<in> selected t 1. \<forall>j \<in> inactive_set act - selected t 1. healthier deg i j))
           \<and> get_illest_active asort act deg k = Inr u
           \<and> length u = length act \<and> set u \<subseteq> {0, 1}
           \<and> selected u 0 \<subseteq> active_set act
           \<and> card (selected u 0) = min k (card (active_set act))
           \<and> (\<forall>i \<in> selected u 0. \<forall>j \<in> active_set act - selected u 0. deg ! j \<le> deg ! i)
           \<and> (asort (active_degs act deg) = insertion_argsort (active_degs act deg) \<longrightarrow>
                (\<forall>i \<in> selected u 0. \<forall>j \<in> active_set act - selected u 0. healthier deg j i))"
    using conjI [OF t u] unfolding conj_assoc .
  then show ?thesis
    by (intro exI)
qed

theorem health_ranking_selection_witness:
  "length [1, 0, 0, 1 :: real] \<le> length [3, 2, 2, 1 :: real]
   \<and> is_argsort insertion_argsort (inactive_degs [1, 0, 0, 1] [3, 2, 2, 1])
   \<and> is_argsort insertion_argsort (active_degs [1, 0, 0, 1] [3, 2, 2, 1])
   \<and> get_healthiest_inactive insertion_argsort [1, 0, 0, 1] [3, 2, 2, 1] 1 = Inr [0, 1, 0, 0]
   \<and> get_illest_active insertion_argsort [1, 0, 0, 1] [3, 2, 2, 1] 1 = Inr [0, 1, 1, 1]
   \<and> (\<exists>t. get_healthiest_inactive insertion_argsort [1, 0, 0, 1] [3, 2, 2, 1] 1 = Inr t
          \<and> card (selected t 1) = min 1 (card (inactive_set [1, 0, 0, 1])))"
proof -
  have l: "length [1, 0, 0, 1 :: real] \<le> length [3, 2, 2, 1 :: real]"
    by simp
  have s1: "is_argsort insertion_argsort (inactive_degs [1, 0, 0, 1] [3, 2, 2, 1])"
    and s2: "is_argsort insertion_argsort (active_degs [1, 0, 0, 1] [3, 2, 2, 1])"
    by (rule is_argsort_insertion)+
  have a: "get_healthiest_inactive insertion_argsort [1, 0, 0, 1] [3, 2, 2, 1] 1 = Inr [0, 1, 0, 0]"
    by code_simp
  have b: "get_illest_active insertion_argsort [1, 0, 0, 1] [3, 2, 2, 1] 1 = Inr [0, 1, 1, 1]"
    by code_simp
  obtain t u where tu: "get_healthiest_inactive insertion_argsort [1, 0, 0, 1] [3, 2, 2, 1] 1 = Inr t"
      "card (selected t 1) = min 1 (card (inactive_set [1, 0, 0, 1]))"
    using health_ranking_selection [OF l s1 s2, of 1] by auto
  have "\<exists>t. get_healthiest_inactive insertion_argsort [1, 0, 0, 1] [3, 2, 2, 1] 1 = Inr t
          \<and> card (selected t 1) = min 1 (card (inactive_set [1, 0, 0, 1]))"
    using tu by (intro exI [of _ t] conjI)
  then show ?thesis
    using l s1 s2 a b by (intro conjI)
qed

lemma is_argsort_pair:
  assumes "is_argsort asort [x, y]"
  shows "asort [x, y] = [0, 1] \<or> asort [x, y] = [1, 0]"
proof -
  have d: "distinct (asort [x, y])" and s: "set (asort [x, y]) = {0..<Suc (Suc 0)}"
    using assms by (simp_all add: is_argsort_def)
  have "length (asort [x, y]) = card (set (asort [x, y]))"
    by (rule distinct_card [OF d, symmetric])
  then have "length (asort [x, y]) = Suc (Suc 0)"
    unfolding s by simp
  then obtain a r where ar: "asort [x, y] = a # r" "length r = Suc 0"
    unfolding length_Suc_conv by blast
  then obtain b where ab: "asort [x, y] = [a, b]"
    unfolding length_Suc_conv by auto
  have "a \<in> set (asort [x, y])" "b \<in> set (asort [x, y])"
    unfolding ab by simp_all
  then have m: "a < Suc (Suc 0)" "b < Suc (Suc 0)"
    unfolding s by simp_all
  have ne: "a \<noteq> b"
    using d unfolding ab by simp
  have "(a = 0 \<and> b = 1) \<or> (a = 1 \<and> b = 0)"
    using m ne by linarith
  then show ?thesis
    unfolding ab by simp
qed

text \<open>
  One inactive stack and a count of two: the array handed to \<open>np.argsort\<close> has one
  entry, and whatever \<open>np.argsort\<close> is, one stack is selected and not two. Two stacks of
  equal degradation and a count of one: whichever of the two orders \<open>np.argsort\<close> gives to
  the two equal values, it is not the stack of index 0 that is chosen both when the two
  are inactive and one is to be turned on, and when the two are active and one is to be
  turned off.
\<close>

theorem health_ranking_counterexample:
  "get_healthiest_inactive insertion_argsort [0, 1] [0, 0] 2 = Inr [1, 0]
   \<and> card (selected [1, 0] 1) = 1
   \<and> (\<nexists>asort. is_argsort asort [0]
          \<and> get_healthiest_inactive asort [0, 1] [0, 0] 2 \<noteq> Inr [1, 0])
   \<and> (\<nexists>asort. is_argsort asort [5, 5]
          \<and> get_healthiest_inactive asort [0, 0] [5, 5] 1 = Inr [1, 0]
          \<and> get_illest_active asort [1, 1] [5, 5] 1 = Inr [0, 1])"
proof -
  have a: "get_healthiest_inactive insertion_argsort [0, 1] [0, 0] 2 = Inr [1, 0]"
    by code_simp
  have "selected [1, 0] 1 = {0}"
    by (auto simp: selected_def less_Suc_eq)
  then have b: "card (selected [1, 0] 1) = 1"
    by simp
  have s: "get_healthiest_inactive asort [0, 1] [0, 0] 2 = Inr [1, 0]"
    if h: "is_argsort asort [0]" for asort
    using is_argsort_single [OF h] by (simp add: get_healthiest_inactive_def Let_def)
  have s': "\<nexists>asort. is_argsort asort [0]
          \<and> get_healthiest_inactive asort [0, 1] [0, 0] 2 \<noteq> Inr [1, 0]"
    using s by blast
  have c: False
    if h: "is_argsort asort [5, 5]"
      "get_healthiest_inactive asort [0, 0] [5, 5] 1 = Inr [1, 0]"
      "get_illest_active asort [1, 1] [5, 5] 1 = Inr [0, 1]" for asort
  proof -
    consider "asort [5, 5] = [0, 1]" | "asort [5, 5] = [1, 0]"
      using is_argsort_pair [OF h(1)] by blast
    then show False
    proof cases
      case 1
      have "get_illest_active asort [1, 1] [5, 5] 1 = Inr [1, 0]"
        using 1 by (simp add: get_illest_active_def Let_def)
      then show False using h(3) by simp
    next
      case 2
      have "get_healthiest_inactive asort [0, 0] [5, 5] 1 = Inr [0, 1]"
        using 2 by (simp add: get_healthiest_inactive_def Let_def)
      then show False using h(2) by simp
    qed
  qed
  have c': "\<nexists>asort. is_argsort asort [5, 5]
          \<and> get_healthiest_inactive asort [0, 0] [5, 5] 1 = Inr [1, 0]
          \<and> get_illest_active asort [1, 1] [5, 5] 1 = Inr [0, 1]"
    using c by blast
  show ?thesis
    using a b s' c' by (intro conjI)
qed

subsection \<open>Power sharing with rotation\<close>

lemma np_div_fin: "d \<noteq> 0 \<Longrightarrow> np_div (Fin x) (Fin d) = Fin (x / d)"
  by (simp add: np_div_def)

lemma np_div_zero:
  "np_div (Fin x) (Fin 0) = (if x = 0 then NaN else if 0 < x then PInf else NInf)"
  by (simp add: np_div_def inf_of_sign_def)

lemma first_share_finite: "0 < n_stacks sv \<Longrightarrow> is_fin (first_share sv p)"
  by (simp add: first_share_def np_div_fin)

lemma list_all_replicate: "list_all P (replicate n v) = (n = 0 \<or> P v)"
  by (induction n) auto

lemma final_allocation_finite:
  assumes "0 < n_stacks sv"
  shows "\<exists>r. final_allocation sv p = Inr r \<and> (finite_result r \<longleftrightarrow> sum_active_waiting sv \<noteq> 0)"
proof (cases "sum_active_waiting sv = 0")
  case False
  then show ?thesis
    using assms
    by (simp add: final_allocation_def Let_def np_div_fin finite_result_def fsub_def
        list_all_replicate)
next
  case True
  have n: "n_stacks sv \<noteq> 0" using assms by simp
  consider "p = 0" | "0 < p" | "p < 0" by linarith
  then show ?thesis
  proof cases
    case 1
    then show ?thesis
      using n True
      by (simp add: final_allocation_def Let_def np_div_zero np_div_def finite_result_def
          list_all_replicate)
  next
    case 2
    then show ?thesis
      using n True
      by (simp add: final_allocation_def Let_def np_div_zero np_div_def finite_result_def
          inf_of_sign_def fsub_def)
  next
    case 3
    then show ?thesis
      using n True
      by (simp add: final_allocation_def Let_def np_div_zero np_div_def finite_result_def
          inf_of_sign_def list_all_replicate)
  qed
qed

lemma turn_on_stack_n_stacks:
  "turn_on_stack sv i = Inr sv1 \<Longrightarrow> n_stacks sv1 = n_stacks sv"
  by (auto simp: turn_on_stack_def split: if_splits)

lemma turn_off_stack_n_stacks:
  "turn_off_stack sv i = Inr sv1 \<Longrightarrow> n_stacks sv1 = n_stacks sv"
  by (auto simp: turn_off_stack_def split: if_splits)

lemma turn_on_rounds_n_stacks:
  "turn_on_rounds sv rounds = Inr sv1 \<Longrightarrow> n_stacks sv1 = n_stacks sv"
proof (induction rounds arbitrary: sv)
  case Nil
  then show ?case by simp
next
  case (Cons i rest)
  from Cons.prems obtain ij sv2 where
    a: "turn_on_stack sv (stack_rotation sv ! ij) = Inr sv2"
    and b: "turn_on_rounds sv2 rest = Inr sv1"
    by (auto split: sum.splits)
  show ?case
    using Cons.IH [OF b] turn_on_stack_n_stacks [OF a] by simp
qed

lemma add_shed_phase_n_stacks:
  "add_shed_phase sv p = Inr sv1 \<Longrightarrow> n_stacks sv1 = n_stacks sv"
  unfolding add_shed_phase_def Let_def
  by (auto split: if_splits list.splits sum.splits
      dest: turn_on_rounds_n_stacks turn_off_stack_n_stacks)

lemma all_zero_sum: "set xs \<subseteq> {0} \<Longrightarrow> sum_list xs = (0::real)"
  by (induction xs) auto

lemma all_zero_sum2:
  "set xs \<subseteq> {0} \<Longrightarrow> set ys \<subseteq> {0} \<Longrightarrow> sum_list (map2 (+) xs ys) = (0::real)"
proof (rule all_zero_sum)
  assume a: "set xs \<subseteq> {0}" "set ys \<subseteq> {0}"
  show "set (map2 (+) xs ys) \<subseteq> {0}"
  proof
    fix v assume "v \<in> set (map2 (+) xs ys)"
    then obtain x y where "(x, y) \<in> set (zip xs ys)" "v = x + y" by auto
    then have m: "x \<in> set xs" "y \<in> set ys" and v: "v = x + y"
      by (auto dest: set_zip_leftD set_zip_rightD)
    have "x = 0" using a(1) m(1) by blast
    moreover have "y = 0" using a(2) m(2) by blast
    ultimately show "v \<in> {0}" using v by simp
  qed
qed

lemma add_shed_phase_idle:
  assumes "set (active sv) \<subseteq> {0}" and "set (waiting sv) \<subseteq> {0}"
    and "0 < stack_rating sv" and "p < stack_rating sv / 2"
  shows "add_shed_phase sv p = Inr sv" and "sum_active_waiting sv = 0"
proof -
  show z: "sum_active_waiting sv = 0"
    unfolding sum_active_waiting_def by (rule all_zero_sum2 [OF assms(1,2)])
  have a: "sum_list (active sv) = 0"
    by (rule all_zero_sum [OF assms(1)])
  have "p / (stack_rating sv / 2) < 1"
    using assms(3,4) by simp
  then have "\<lfloor>p / (stack_rating sv / 2)\<rfloor> \<le> 0"
    by (simp add: floor_le_iff)
  then have "min (real_of_int \<lfloor>p / (stack_rating sv / 2)\<rfloor>) (real (n_stacks sv)) \<le> 0"
    by (simp add: min_le_iff_disj)
  then have d: "py_int (min (real_of_int \<lfloor>p / (stack_rating sv / 2)\<rfloor>) (real (n_stacks sv))
                  - sum_active_waiting sv) \<le> 0"
    unfolding z py_int_def by (simp add: ceiling_le_iff)
  have r: "stack_rating sv / 2 \<noteq> 0" using assms(3) by simp
  show "add_shed_phase sv p = Inr sv"
    unfolding add_shed_phase_def Let_def using d a r by auto
qed

lemma power_sharing_rotation_finite:
  assumes ph: "add_shed_phase sv p = Inr sv1" and n: "0 < n_stacks sv"
  shows "\<exists>P c. power_sharing_rotation sv p = Inr (P, c, sv1)
               \<and> (finite_result (P, c) \<longleftrightarrow> sum_active_waiting sv1 \<noteq> 0)"
proof -
  have "0 < n_stacks sv1"
    using add_shed_phase_n_stacks [OF ph] n by simp
  then obtain r where r: "final_allocation sv1 p = Inr r"
      "finite_result r \<longleftrightarrow> sum_active_waiting sv1 \<noteq> 0"
    using final_allocation_finite [of sv1 p] by blast
  have "power_sharing_rotation sv p = Inr (fst r, snd r, sv1)"
    unfolding power_sharing_rotation_def ph using r(1) by (simp add: case_prod_beta)
  then show ?thesis
    using r(2) by (intro exI [of _ "fst r"] exI [of _ "snd r"]) simp
qed

text \<open>
  C10. In \<open>power_sharing_rotation\<close> the first division is guarded (its result is finite
  for a fleet with stacks), the final one is not: for a fleet with stacks, whenever the
  add and shed phase ends in a state \<open>sv1\<close>, the method returns a finite allocation and
  curtailment exactly when some stack of \<open>sv1\<close> is active or waiting. The precondition
  fails when no stack is active or waiting and the input power is below half the stack
  rating: the phase changes nothing, the divisor is zero, and the result is not finite.
\<close>

theorem final_division_unguarded:
  assumes "0 < n_stacks sv"
  shows "is_fin (first_share sv p)
       \<and> (\<forall>sv1. add_shed_phase sv p = Inr sv1 \<longrightarrow>
            (\<exists>P c. power_sharing_rotation sv p = Inr (P, c, sv1)
                   \<and> (finite_result (P, c) \<longleftrightarrow> sum_active_waiting sv1 \<noteq> 0)))
       \<and> (set (active sv) \<subseteq> {0} \<and> set (waiting sv) \<subseteq> {0}
            \<and> 0 < stack_rating sv \<and> p < stack_rating sv / 2 \<longrightarrow>
            add_shed_phase sv p = Inr sv \<and> sum_active_waiting sv = 0
            \<and> (\<exists>P c. power_sharing_rotation sv p = Inr (P, c, sv) \<and> \<not> finite_result (P, c)))"
proof (intro conjI allI impI)
  show "is_fin (first_share sv p)"
    by (rule first_share_finite [OF assms])
next
  fix sv1 assume "add_shed_phase sv p = Inr sv1"
  then show "\<exists>P c. power_sharing_rotation sv p = Inr (P, c, sv1)
                 \<and> (finite_result (P, c) \<longleftrightarrow> sum_active_waiting sv1 \<noteq> 0)"
    by (rule power_sharing_rotation_finite [OF _ assms])
next
  assume h: "set (active sv) \<subseteq> {0} \<and> set (waiting sv) \<subseteq> {0}
            \<and> 0 < stack_rating sv \<and> p < stack_rating sv / 2"
  then have idle: "add_shed_phase sv p = Inr sv" "sum_active_waiting sv = 0"
    using add_shed_phase_idle [of sv p] by blast+
  show "add_shed_phase sv p = Inr sv" by (rule idle(1))
  show "sum_active_waiting sv = 0" by (rule idle(2))
  show "\<exists>P c. power_sharing_rotation sv p = Inr (P, c, sv) \<and> \<not> finite_result (P, c)"
    using power_sharing_rotation_finite [OF idle(1) assms] idle(2) by auto
qed

theorem final_division_unguarded_witness:
  "0 < n_stacks idle_fleet
   \<and> set (active idle_fleet) \<subseteq> {0} \<and> set (waiting idle_fleet) \<subseteq> {0}
   \<and> 0 < stack_rating idle_fleet \<and> (100::real) < stack_rating idle_fleet / 2
   \<and> sum_active_waiting idle_fleet = 0
   \<and> power_sharing_rotation idle_fleet 100 = Inr ([Fin 1000, Fin 1000], NaN, idle_fleet)
   \<and> power_sharing_rotation idle_fleet 0 = Inr ([NaN, NaN], Fin 0, idle_fleet)"
proof -
  have n: "0 < n_stacks idle_fleet"
    by (simp add: idle_fleet_def)
  have h: "set (active idle_fleet) \<subseteq> {0} \<and> set (waiting idle_fleet) \<subseteq> {0}
           \<and> 0 < stack_rating idle_fleet \<and> (100::real) < stack_rating idle_fleet / 2"
    by (simp add: idle_fleet_def)
  have ph: "add_shed_phase idle_fleet 100 = Inr idle_fleet" "sum_active_waiting idle_fleet = 0"
    using final_division_unguarded [OF n, of 100] h by blast+
  have ph0: "add_shed_phase idle_fleet 0 = Inr idle_fleet"
    using final_division_unguarded [OF n, of 0] h by simp
  have fa: "final_allocation idle_fleet 100 = Inr ([Fin 1000, Fin 1000], NaN)"
    unfolding final_allocation_def Let_def ph(2)
    by (simp add: idle_fleet_def np_div_zero np_div_def inf_of_sign_def fsub_def
        numeral_2_eq_2)
  have fa0: "final_allocation idle_fleet 0 = Inr ([NaN, NaN], Fin 0)"
    unfolding final_allocation_def Let_def ph(2)
    by (simp add: idle_fleet_def np_div_zero np_div_def numeral_2_eq_2)
  show ?thesis
    using n h ph(2) by (simp add: power_sharing_rotation_def ph(1) ph0 fa fa0)
qed

subsection \<open>The power balance of the control step\<close>

lemma flag_after_run_status:
  "flag_after_run cm s P_in = on_or_waiting_flag (update_status s)"
proof (cases P_in)
  case (Fin p)
  have "snd (snd (snd (run cm s p))) = apply_op cm s (Run p)"
    by simp
  then show ?thesis
    unfolding flag_after_run_def Fin on_or_waiting_flag_def
    by (simp only: fval.case run_flags)
qed (simp_all add: flag_after_run_def)

lemma length_reconciled_stacks:
  "length (active sv) = length (stacks sv) \<Longrightarrow>
   length (reconciled_stacks deg sv) = length (stacks sv)"
  by (simp add: reconciled_stacks_def)

lemma on_or_waiting_final_length:
  assumes "shapes_ok sv stack_power"
  shows "length (on_or_waiting_final cm deg sv stack_power) = n_stacks sv"
  using assms by (simp add: on_or_waiting_final_def shapes_ok_def reconciled_stacks_def)

lemma on_or_waiting_final_nth:
  assumes "shapes_ok sv stack_power" and "i < n_stacks sv"
  shows "on_or_waiting_final cm deg sv stack_power ! i
         = (if counted deg (stacks sv ! i) (update_status (reconciled_stacks deg sv ! i))
            then 1 else 0)"
proof -
  have l: "length (stacks sv) = n_stacks sv" "length stack_power = n_stacks sv"
    "length (reconciled_stacks deg sv) = n_stacks sv"
    using assms(1) by (simp_all add: shapes_ok_def reconciled_stacks_def)
  have "on_or_waiting_final cm deg sv stack_power ! i
        = (if on_or_waiting_flag (update_status (reconciled_stacks deg sv ! i)) = 1 then 1
           else (if deg then on_or_waiting_flag (stacks sv ! i) else 0))"
    using l assms(2)
    by (simp add: on_or_waiting_final_def flag_after_run_status)
  then show ?thesis
    by (simp add: counted_def on_or_waiting_flag_def)
qed

text \<open>The float arithmetic of the curtailment.\<close>

lemma fadd_not_fin_left: "\<not> is_fin a \<Longrightarrow> \<not> is_fin (fadd a b)"
  by (cases a; cases b) simp_all

lemma fadd_not_fin_right: "\<not> is_fin b \<Longrightarrow> \<not> is_fin (fadd a b)"
  by (cases a; cases b) simp_all

lemma fmul_not_fin: "\<not> is_fin y \<Longrightarrow> \<not> is_fin (fmul (Fin x) y)"
  by (cases y) (simp_all add: inf_of_sign_def)

lemma foldl_fadd_not_fin_start: "\<not> is_fin a \<Longrightarrow> \<not> is_fin (foldl fadd a zs)"
  by (induction zs arbitrary: a) (simp_all add: fadd_not_fin_left)

lemma foldl_fadd_not_fin:
  "\<not> list_all is_fin zs \<Longrightarrow> \<not> is_fin (foldl fadd a zs)"
proof (induction zs arbitrary: a)
  case Nil
  then show ?case by simp
next
  case (Cons z zs)
  show ?case
  proof (cases "is_fin z")
    case True
    then have "\<not> list_all is_fin zs" using Cons.prems by simp
    then show ?thesis using Cons.IH by simp
  next
    case False
    then have "\<not> is_fin (fadd a z)" by (rule fadd_not_fin_right)
    then show ?thesis by (simp add: foldl_fadd_not_fin_start)
  qed
qed

lemma products_not_fin:
  "length xs = length ys \<Longrightarrow> \<not> list_all is_fin ys \<Longrightarrow>
   \<not> list_all is_fin (map2 (\<lambda>x y. fmul (Fin x) y) xs ys)"
proof (induction xs ys rule: list_induct2)
  case Nil
  then show ?case by simp
next
  case (Cons x xs y ys)
  then show ?case
    using fmul_not_fin [of y x] by (cases "is_fin y") simp_all
qed

lemma fdot_not_fin:
  "length xs = length ys \<Longrightarrow> \<not> list_all is_fin ys \<Longrightarrow> \<not> is_fin (fdot xs ys)"
  unfolding fdot_def by (rule foldl_fadd_not_fin) (rule products_not_fin)

lemma fadd_NaN_right: "fadd a NaN = NaN"
  by (cases a) simp_all

lemma fmul_NaN_right: "fmul a NaN = NaN"
  by (cases a) simp_all

lemma foldl_fadd_NaN_start: "foldl fadd NaN zs = NaN"
  by (induction zs) simp_all

lemma foldl_fadd_NaN: "NaN \<in> set zs \<Longrightarrow> foldl fadd a zs = NaN"
proof (induction zs arbitrary: a)
  case Nil
  then show ?case by simp
next
  case (Cons z zs)
  show ?case
  proof (cases "z = NaN")
    case True
    then show ?thesis by (simp add: fadd_NaN_right foldl_fadd_NaN_start)
  next
    case False
    then have "NaN \<in> set zs" using Cons.prems by simp
    then show ?thesis using Cons.IH by simp
  qed
qed

lemma products_NaN:
  "length xs = length ys \<Longrightarrow> NaN \<in> set ys \<Longrightarrow>
   NaN \<in> set (map2 (\<lambda>x y. fmul (Fin x) y) xs ys)"
proof (induction xs ys rule: list_induct2)
  case Nil
  then show ?case by simp
next
  case (Cons x xs y ys)
  then show ?case
    by (cases "y = NaN") (simp_all add: fmul_NaN_right)
qed

lemma fdot_NaN:
  "length xs = length ys \<Longrightarrow> NaN \<in> set ys \<Longrightarrow> fdot xs ys = NaN"
  unfolding fdot_def by (rule foldl_fadd_NaN) (rule products_NaN)

lemma foldl_fadd_Fin:
  "foldl fadd (Fin a) (map2 (\<lambda>x y. fmul (Fin x) y) xs (map Fin ps))
   = Fin (a + sum_list (map2 (*) xs ps))"
proof (induction xs arbitrary: a ps)
  case Nil
  then show ?case by simp
next
  case (Cons x xs)
  then show ?case
    by (cases ps) (simp_all add: add.assoc)
qed

lemma fdot_Fin: "fdot xs (map Fin ps) = Fin (sum_list (map2 (*) xs ps))"
  unfolding fdot_def using foldl_fadd_Fin [of 0 xs ps] by simp

lemma py_max0_Fin: "py_max0 (fsub (Fin p) (Fin a)) = Fin (max 0 (p - a))"
  by (simp add: py_max0_def fsub_def max_def)

lemma py_max0_NaN: "py_max0 (fsub (Fin p) NaN) = Fin 0"
  by (simp add: py_max0_def fsub_def)

lemma py_max0_not_fin:
  "\<not> is_fin d \<Longrightarrow> py_max0 (fsub (Fin p) d) = Fin 0 \<or> py_max0 (fsub (Fin p) d) = PInf"
  by (cases d) (simp_all add: py_max0_def fsub_def)

lemma balance_not_fin:
  assumes "\<not> is_fin A"
  shows "\<not> is_fin (fadd (fadd A U) C)"
  by (rule fadd_not_fin_left) (rule fadd_not_fin_left, rule assms)

text \<open>The powers of a finite allocation.\<close>

lemma finite_powers_Fin: "finite_powers (map Fin ps) = Some ps"
proof -
  have "list_all is_fin (map Fin ps)"
    by (induction ps) simp_all
  moreover have "map fin_val (map Fin ps) = ps"
    by (induction ps) simp_all
  ultimately show ?thesis
    by (simp add: finite_powers_def)
qed

lemma finite_powers_None: "\<not> list_all is_fin P \<Longrightarrow> finite_powers P = None"
  by (simp add: finite_powers_def)

text \<open>The dot product is the power allocated to the stacks counted on or waiting.\<close>

lemma sum_list_map2_nth:
  "length xs = length ys \<Longrightarrow>
   sum_list (map2 f xs ys) = (\<Sum>i<length ys. f (xs ! i) (ys ! i))"
proof -
  assume l: "length xs = length ys"
  have "sum_list (map2 f xs ys) = (\<Sum>i = 0..<length (map2 f xs ys). map2 f xs ys ! i)"
    by (rule sum_list_sum_nth)
  also have "\<dots> = (\<Sum>i = 0..<length ys. f (xs ! i) (ys ! i))"
    using l by (intro sum.cong) simp_all
  finally show ?thesis
    by (simp add: atLeast0LessThan)
qed

lemma stepped_stacks_nth:
  assumes "shapes_ok sv (map Fin ps)" and "i < n_stacks sv"
  shows "map2 (\<lambda>s p. snd (snd (snd (run cm s p)))) (reconciled_stacks deg sv) ps ! i
         = apply_op cm (reconciled_stacks deg sv ! i) (Run (ps ! i))"
  using assms by (simp add: shapes_ok_def reconciled_stacks_def)

lemma dot_allocated:
  assumes "shapes_ok sv (map Fin ps)"
  shows "sum_list (map2 (*) (on_or_waiting_final cm deg sv (map Fin ps)) ps)
         = allocated_on_or_waiting deg (stacks sv)
             (map2 (\<lambda>s p. snd (snd (snd (run cm s p)))) (reconciled_stacks deg sv) ps) ps"
proof -
  have n: "length ps = n_stacks sv"
    using assms by (simp add: shapes_ok_def)
  have l: "length (on_or_waiting_final cm deg sv (map Fin ps)) = length ps"
    using on_or_waiting_final_length [OF assms] n by simp
  have c: "counted deg (stacks sv ! i)
             (map2 (\<lambda>s p. snd (snd (snd (run cm s p)))) (reconciled_stacks deg sv) ps ! i)
           = counted deg (stacks sv ! i) (update_status (reconciled_stacks deg sv ! i))"
    if "i < length ps" for i
    unfolding stepped_stacks_nth [OF assms that [unfolded n]] counted_def
    by (simp only: run_flags)
  have "sum_list (map2 (*) (on_or_waiting_final cm deg sv (map Fin ps)) ps)
        = (\<Sum>i<length ps. on_or_waiting_final cm deg sv (map Fin ps) ! i * ps ! i)"
    by (rule sum_list_map2_nth [OF l])
  also have "\<dots> = (\<Sum>i<length ps.
      if counted deg (stacks sv ! i)
           (map2 (\<lambda>s p. snd (snd (snd (run cm s p)))) (reconciled_stacks deg sv) ps ! i)
      then ps ! i else 0)"
  proof (rule sum.cong [OF refl])
    fix i assume "i \<in> {..<length ps}"
    then have i: "i < length ps" by simp
    show "on_or_waiting_final cm deg sv (map Fin ps) ! i * ps ! i
          = (if counted deg (stacks sv ! i)
                  (map2 (\<lambda>s p. snd (snd (snd (run cm s p)))) (reconciled_stacks deg sv) ps ! i)
             then ps ! i else 0)"
      unfolding c [OF i] on_or_waiting_final_nth [OF assms i [unfolded n]]
      by simp
  qed
  finally show ?thesis
    by (simp add: allocated_on_or_waiting_def)
qed

lemma step_stacks_finite:
  "\<exists>H2_mass_out H2_mass_flow_rate sv2.
     step_stacks cm deg sv (map Fin ps)
       = Some (H2_mass_out, H2_mass_flow_rate,
               sum_list (map2 (\<lambda>s p. fst (snd (snd (run cm s p)))) (reconciled_stacks deg sv) ps),
               sv2)
     \<and> stacks sv2 = map2 (\<lambda>s p. snd (snd (snd (run cm s p)))) (reconciled_stacks deg sv) ps"
  unfolding step_stacks_def finite_powers_Fin run_results_def Let_def case_prod_unfold
  by (simp add: comp_def)

text \<open>
  C2 (as the code has it). For every allocation method, with or without \<open>deg\<close> in its
  name, whose vectors have \<open>n_stacks\<close> entries. When every allocated power is finite,
  \<open>control\<close> steps each stack with its power by \<open>run\<close>, returns as unconsumed power the sum
  of what each \<open>run\<close> reports as left, and returns the curtailment
  \<open>max(0, power_in - A)\<close>, where \<open>A\<close> is the allocated power summed over the stacks
  counted on or waiting (after the step, and for a \<open>deg\<close> method also before it). So \<open>A\<close>
  plus the curtailment is the larger of \<open>power_in\<close> and \<open>A\<close>: it is \<open>power_in\<close> exactly
  when no more than \<open>power_in\<close> was allocated to those stacks. The unconsumed power is not
  part of this balance. When an allocated power is not finite, the dot product that
  stands for \<open>A\<close> is not finite either, the curtailment is 0 or infinite, and \<open>A\<close> plus any
  unconsumed power plus the curtailment is not a finite number; with a nan among the
  powers the dot product is nan and the curtailment is 0.
\<close>

theorem control_power_balance:
  assumes "allocate sv power_in = Inr (stack_power, sv1)" and "shapes_ok sv1 stack_power"
  shows "\<exists>res curtailed_wind.
           control cm deg allocate sv power_in = Inr (res, curtailed_wind)
           \<and> (\<forall>powers. stack_power = map Fin powers \<longrightarrow>
                (\<exists>H2_mass_out H2_mass_flow_rate power_left sv2.
                   res = Some (H2_mass_out, H2_mass_flow_rate, power_left, sv2)
                   \<and> stacks sv2 = map2 (\<lambda>s p. snd (snd (snd (run cm s p))))
                                    (reconciled_stacks deg sv1) powers
                   \<and> power_left = sum_list (map2 (\<lambda>s p. fst (snd (snd (run cm s p))))
                                              (reconciled_stacks deg sv1) powers)
                   \<and> curtailed_wind
                       = Fin (max 0 (power_in
                                - allocated_on_or_waiting deg (stacks sv1) (stacks sv2) powers))
                   \<and> allocated_on_or_waiting deg (stacks sv1) (stacks sv2) powers
                       + max 0 (power_in
                                - allocated_on_or_waiting deg (stacks sv1) (stacks sv2) powers)
                       = max power_in
                           (allocated_on_or_waiting deg (stacks sv1) (stacks sv2) powers)
                   \<and> (allocated_on_or_waiting deg (stacks sv1) (stacks sv2) powers
                        + max 0 (power_in
                                 - allocated_on_or_waiting deg (stacks sv1) (stacks sv2) powers)
                        = power_in
                      \<longleftrightarrow> allocated_on_or_waiting deg (stacks sv1) (stacks sv2) powers
                            \<le> power_in)))
           \<and> (\<not> list_all is_fin stack_power \<longrightarrow>
                res = None
                \<and> (\<forall>i<n_stacks sv1.
                      on_or_waiting_final cm deg sv1 stack_power ! i
                      = (if counted deg (stacks sv1 ! i)
                              (update_status (reconciled_stacks deg sv1 ! i))
                         then 1 else 0))
                \<and> \<not> is_fin (fdot (on_or_waiting_final cm deg sv1 stack_power) stack_power)
                \<and> curtailed_wind
                    = py_max0 (fsub (Fin power_in)
                        (fdot (on_or_waiting_final cm deg sv1 stack_power) stack_power))
                \<and> (curtailed_wind = Fin 0 \<or> curtailed_wind = PInf)
                \<and> (\<forall>power_left.
                      \<not> is_fin (fadd (fadd (fdot (on_or_waiting_final cm deg sv1 stack_power)
                                               stack_power) power_left) curtailed_wind)))
           \<and> (NaN \<in> set stack_power \<longrightarrow>
                fdot (on_or_waiting_final cm deg sv1 stack_power) stack_power = NaN
                \<and> curtailed_wind = Fin 0)"
proof -
  define ow where "ow = on_or_waiting_final cm deg sv1 stack_power"
  define c where "c = py_max0 (fsub (Fin power_in) (fdot ow stack_power))"
  have ctl: "control cm deg allocate sv power_in = Inr (step_stacks cm deg sv1 stack_power, c)"
    unfolding control_def assms(1) Let_def c_def ow_def
    using assms(2) by simp
  have len: "length ow = length stack_power"
    unfolding ow_def using on_or_waiting_final_length [OF assms(2)] assms(2)
    by (simp add: shapes_ok_def)
  have bal: "a + max 0 (p - a) = max p a" for a p :: real
    by (simp add: max_def)
  have iff: "(max p a = p) = (a \<le> p)" for a p :: real
    by (auto simp: max_def)
  have fin: "\<exists>H2_mass_out H2_mass_flow_rate power_left sv2.
        step_stacks cm deg sv1 stack_power = Some (H2_mass_out, H2_mass_flow_rate, power_left, sv2)
        \<and> stacks sv2 = map2 (\<lambda>s p. snd (snd (snd (run cm s p))))
                         (reconciled_stacks deg sv1) powers
        \<and> power_left = sum_list (map2 (\<lambda>s p. fst (snd (snd (run cm s p))))
                                   (reconciled_stacks deg sv1) powers)
        \<and> c = Fin (max 0 (power_in
                     - allocated_on_or_waiting deg (stacks sv1) (stacks sv2) powers))
        \<and> allocated_on_or_waiting deg (stacks sv1) (stacks sv2) powers
            + max 0 (power_in - allocated_on_or_waiting deg (stacks sv1) (stacks sv2) powers)
            = max power_in (allocated_on_or_waiting deg (stacks sv1) (stacks sv2) powers)
        \<and> (allocated_on_or_waiting deg (stacks sv1) (stacks sv2) powers
             + max 0 (power_in - allocated_on_or_waiting deg (stacks sv1) (stacks sv2) powers)
             = power_in
           \<longleftrightarrow> allocated_on_or_waiting deg (stacks sv1) (stacks sv2) powers \<le> power_in)"
    if eq: "stack_power = map Fin powers" for powers
  proof -
    have sh: "shapes_ok sv1 (map Fin powers)"
      using assms(2) unfolding eq .
    obtain m f sv2 where st:
      "step_stacks cm deg sv1 (map Fin powers)
         = Some (m, f, sum_list (map2 (\<lambda>s p. fst (snd (snd (run cm s p))))
                                  (reconciled_stacks deg sv1) powers), sv2)"
      and s2: "stacks sv2 = map2 (\<lambda>s p. snd (snd (snd (run cm s p))))
                              (reconciled_stacks deg sv1) powers"
      using step_stacks_finite [of cm deg sv1 powers] by blast
    have "c = Fin (max 0 (power_in
                 - sum_list (map2 (*) (on_or_waiting_final cm deg sv1 (map Fin powers)) powers)))"
      unfolding c_def ow_def eq fdot_Fin py_max0_Fin ..
    then have cv: "c = Fin (max 0 (power_in
                 - allocated_on_or_waiting deg (stacks sv1) (stacks sv2) powers))"
      unfolding dot_allocated [OF sh] s2 .
    show ?thesis
      apply (rule exI [of _ m], rule exI [of _ f])
      apply (rule exI [of _ "sum_list (map2 (\<lambda>s p. fst (snd (snd (run cm s p))))
                                  (reconciled_stacks deg sv1) powers)"])
      apply (rule exI [of _ sv2])
      apply (intro conjI)
           apply (simp only: eq st)
          apply (rule s2)
         apply (rule refl)
        apply (rule cv)
       apply (rule bal)
      apply (simp only: bal iff)
      done
  qed
  have nonfin: "step_stacks cm deg sv1 stack_power = None
        \<and> (\<forall>i<n_stacks sv1.
              on_or_waiting_final cm deg sv1 stack_power ! i
              = (if counted deg (stacks sv1 ! i)
                      (update_status (reconciled_stacks deg sv1 ! i))
                 then 1 else 0))
        \<and> \<not> is_fin (fdot (on_or_waiting_final cm deg sv1 stack_power) stack_power)
        \<and> c = py_max0 (fsub (Fin power_in)
                (fdot (on_or_waiting_final cm deg sv1 stack_power) stack_power))
        \<and> (c = Fin 0 \<or> c = PInf)
        \<and> (\<forall>power_left.
              \<not> is_fin (fadd (fadd (fdot (on_or_waiting_final cm deg sv1 stack_power)
                                       stack_power) power_left) c))"
    if nf: "\<not> list_all is_fin stack_power"
  proof -
    have a: "step_stacks cm deg sv1 stack_power = None"
      by (simp add: step_stacks_def finite_powers_None [OF nf])
    have b: "\<forall>i<n_stacks sv1.
              on_or_waiting_final cm deg sv1 stack_power ! i
              = (if counted deg (stacks sv1 ! i)
                      (update_status (reconciled_stacks deg sv1 ! i))
                 then 1 else 0)"
      using on_or_waiting_final_nth [OF assms(2)] by blast
    have d: "\<not> is_fin (fdot ow stack_power)"
      by (rule fdot_not_fin [OF len nf])
    have e: "c = Fin 0 \<or> c = PInf"
      unfolding c_def by (rule py_max0_not_fin [OF d])
    have g: "\<forall>power_left. \<not> is_fin (fadd (fadd (fdot ow stack_power) power_left) c)"
      using balance_not_fin [OF d] by blast
    show ?thesis
      using a b d e g c_def unfolding ow_def by (intro conjI)
  qed
  have nan: "fdot (on_or_waiting_final cm deg sv1 stack_power) stack_power = NaN \<and> c = Fin 0"
    if n: "NaN \<in> set stack_power"
  proof -
    have d: "fdot ow stack_power = NaN"
      by (rule fdot_NaN [OF len n])
    have "c = Fin 0"
      unfolding c_def d by (rule py_max0_NaN)
    then show ?thesis
      using d unfolding ow_def by (intro conjI)
  qed
  show ?thesis
    apply (rule exI [of _ "step_stacks cm deg sv1 stack_power"], rule exI [of _ c])
    apply (rule conjI, rule ctl)
    apply (rule conjI, rule allI, rule impI, erule fin)
    apply (rule conjI, rule impI, erule nonfin)
    apply (rule impI, erule nan)
    done
qed

theorem control_power_balance_witness:
  "baseline_controller single_fleet 500
     = Inr ([Fin 500], single_fleet\<lparr>active := [1], stacks := [turn_stack_on (fresh_stack 1 0)]\<rparr>)
   \<and> shapes_ok (single_fleet\<lparr>active := [1], stacks := [turn_stack_on (fresh_stack 1 0)]\<rparr>) [Fin 500]
   \<and> (\<exists>H2_mass_out H2_mass_flow_rate sv2.
         control (const_cell 1 2 3) True baseline_controller single_fleet 500
           = Inr (Some (H2_mass_out, H2_mass_flow_rate, 0, sv2), Fin 0)
         \<and> allocated_on_or_waiting True
              (stacks (single_fleet\<lparr>active := [1], stacks := [turn_stack_on (fresh_stack 1 0)]\<rparr>))
              (stacks sv2) [500] = 500)
   \<and> power_sharing_policy idle_fleet 0 = Inr ([NaN, NaN], idle_fleet)
   \<and> shapes_ok idle_fleet [NaN, NaN]
   \<and> \<not> list_all is_fin [NaN, NaN]
   \<and> NaN \<in> set [NaN, NaN]
   \<and> control (const_cell 1 2 3) False power_sharing_policy idle_fleet 0 = Inr (None, Fin 0)"
proof -
  let ?cm = "const_cell 1 2 3"
  let ?sv1 = "single_fleet\<lparr>active := [1], stacks := [turn_stack_on (fresh_stack 1 0)]\<rparr>"
  have a: "baseline_controller single_fleet 500 = Inr ([Fin 500], ?sv1)"
    by code_simp
  have b: "shapes_ok ?sv1 [Fin 500]"
    by code_simp
  have u: "sum_list (map2 (\<lambda>s p. fst (snd (snd (run ?cm s p))))
             (reconciled_stacks True ?sv1) [500]) = 0"
    by code_simp
  have al: "allocated_on_or_waiting True (stacks ?sv1)
              (map2 (\<lambda>s p. snd (snd (snd (run ?cm s p)))) (reconciled_stacks True ?sv1) [500])
              [500] = 500"
    by code_simp
  obtain res curtailed_wind where rc:
    "control ?cm True baseline_controller single_fleet 500 = Inr (res, curtailed_wind)
           \<and> (\<forall>powers. [Fin 500] = map Fin powers \<longrightarrow>
                (\<exists>H2_mass_out H2_mass_flow_rate power_left sv2.
                   res = Some (H2_mass_out, H2_mass_flow_rate, power_left, sv2)
                   \<and> stacks sv2 = map2 (\<lambda>s p. snd (snd (snd (run ?cm s p))))
                                    (reconciled_stacks True ?sv1) powers
                   \<and> power_left = sum_list (map2 (\<lambda>s p. fst (snd (snd (run ?cm s p))))
                                              (reconciled_stacks True ?sv1) powers)
                   \<and> curtailed_wind
                       = Fin (max 0 (500
                                - allocated_on_or_waiting True (stacks ?sv1) (stacks sv2) powers))
                   \<and> allocated_on_or_waiting True (stacks ?sv1) (stacks sv2) powers
                       + max 0 (500
                                - allocated_on_or_waiting True (stacks ?sv1) (stacks sv2) powers)
                       = max 500
                           (allocated_on_or_waiting True (stacks ?sv1) (stacks sv2) powers)
                   \<and> (allocated_on_or_waiting True (stacks ?sv1) (stacks sv2) powers
                        + max 0 (500
                                 - allocated_on_or_waiting True (stacks ?sv1) (stacks sv2) powers)
                        = 500
                      \<longleftrightarrow> allocated_on_or_waiting True (stacks ?sv1) (stacks sv2) powers
                            \<le> 500)))
           \<and> (\<not> list_all is_fin [Fin 500] \<longrightarrow>
                res = None
                \<and> (\<forall>i<n_stacks ?sv1.
                      on_or_waiting_final ?cm True ?sv1 [Fin 500] ! i
                      = (if counted True (stacks ?sv1 ! i)
                              (update_status (reconciled_stacks True ?sv1 ! i))
                         then 1 else 0))
                \<and> \<not> is_fin (fdot (on_or_waiting_final ?cm True ?sv1 [Fin 500]) [Fin 500])
                \<and> curtailed_wind
                    = py_max0 (fsub (Fin 500)
                        (fdot (on_or_waiting_final ?cm True ?sv1 [Fin 500]) [Fin 500]))
                \<and> (curtailed_wind = Fin 0 \<or> curtailed_wind = PInf)
                \<and> (\<forall>power_left.
                      \<not> is_fin (fadd (fadd (fdot (on_or_waiting_final ?cm True ?sv1 [Fin 500])
                                               [Fin 500]) power_left) curtailed_wind)))
           \<and> (NaN \<in> set [Fin 500] \<longrightarrow>
                fdot (on_or_waiting_final ?cm True ?sv1 [Fin 500]) [Fin 500] = NaN
                \<and> curtailed_wind = Fin 0)"
    using control_power_balance [where allocate = baseline_controller and sv = single_fleet
        and power_in = 500 and stack_power = "[Fin 500]" and ?sv1.0 = ?sv1
        and cm = ?cm and deg = True, OF a b]
    by (elim exE) (rule that)
  have "[Fin 500] = map Fin [500 :: real]"
    by simp
  from rc [THEN conjunct2, THEN conjunct1, THEN spec, THEN mp, OF this]
  obtain m f pl sv2 where r:
    "res = Some (m, f, pl, sv2)"
    "stacks sv2 = map2 (\<lambda>s p. snd (snd (snd (run ?cm s p)))) (reconciled_stacks True ?sv1) [500]"
    "pl = sum_list (map2 (\<lambda>s p. fst (snd (snd (run ?cm s p))))
                      (reconciled_stacks True ?sv1) [500])"
    "curtailed_wind
       = Fin (max 0 (500 - allocated_on_or_waiting True (stacks ?sv1) (stacks sv2) [500]))"
    by (elim exE conjE) (rule that; assumption)
  have al2: "allocated_on_or_waiting True (stacks ?sv1) (stacks sv2) [500] = 500"
    unfolding r(2) by (rule al)
  have pl0: "pl = 0"
    unfolding r(3) by (rule u)
  have c0: "curtailed_wind = Fin 0"
    unfolding r(4) al2 by simp
  have "control ?cm True baseline_controller single_fleet 500 = Inr (Some (m, f, 0, sv2), Fin 0)"
    using rc [THEN conjunct1] unfolding r(1) pl0 c0 .
  then have fin: "\<exists>H2_mass_out H2_mass_flow_rate sv2.
         control ?cm True baseline_controller single_fleet 500
           = Inr (Some (H2_mass_out, H2_mass_flow_rate, 0, sv2), Fin 0)
         \<and> allocated_on_or_waiting True (stacks ?sv1) (stacks sv2) [500] = 500"
    using al2 by (intro exI conjI)
  have a': "power_sharing_policy idle_fleet 0 = Inr ([NaN, NaN], idle_fleet)"
    by code_simp
  have b': "shapes_ok idle_fleet [NaN, NaN]"
    by code_simp
  have nf: "\<not> list_all is_fin [NaN, NaN]"
    by simp
  have n: "NaN \<in> set [NaN, NaN]"
    by simp
  obtain res curtailed_wind where rc':
    "control ?cm False power_sharing_policy idle_fleet 0 = Inr (res, curtailed_wind)
           \<and> (\<forall>powers. [NaN, NaN] = map Fin powers \<longrightarrow>
                (\<exists>H2_mass_out H2_mass_flow_rate power_left sv2.
                   res = Some (H2_mass_out, H2_mass_flow_rate, power_left, sv2)
                   \<and> stacks sv2 = map2 (\<lambda>s p. snd (snd (snd (run ?cm s p))))
                                    (reconciled_stacks False idle_fleet) powers
                   \<and> power_left = sum_list (map2 (\<lambda>s p. fst (snd (snd (run ?cm s p))))
                                              (reconciled_stacks False idle_fleet) powers)
                   \<and> curtailed_wind
                       = Fin (max 0 (0
                                - allocated_on_or_waiting False (stacks idle_fleet) (stacks sv2) powers))
                   \<and> allocated_on_or_waiting False (stacks idle_fleet) (stacks sv2) powers
                       + max 0 (0
                                - allocated_on_or_waiting False (stacks idle_fleet) (stacks sv2) powers)
                       = max 0
                           (allocated_on_or_waiting False (stacks idle_fleet) (stacks sv2) powers)
                   \<and> (allocated_on_or_waiting False (stacks idle_fleet) (stacks sv2) powers
                        + max 0 (0
                                 - allocated_on_or_waiting False (stacks idle_fleet) (stacks sv2) powers)
                        = 0
                      \<longleftrightarrow> allocated_on_or_waiting False (stacks idle_fleet) (stacks sv2) powers
                            \<le> 0)))
           \<and> (\<not> list_all is_fin [NaN, NaN] \<longrightarrow>
                res = None
                \<and> (\<forall>i<n_stacks idle_fleet.
                      on_or_waiting_final ?cm False idle_fleet [NaN, NaN] ! i
                      = (if counted False (stacks idle_fleet ! i)
                              (update_status (reconciled_stacks False idle_fleet ! i))
                         then 1 else 0))
                \<and> \<not> is_fin (fdot (on_or_waiting_final ?cm False idle_fleet [NaN, NaN]) [NaN, NaN])
                \<and> curtailed_wind
                    = py_max0 (fsub (Fin 0)
                        (fdot (on_or_waiting_final ?cm False idle_fleet [NaN, NaN]) [NaN, NaN]))
                \<and> (curtailed_wind = Fin 0 \<or> curtailed_wind = PInf)
                \<and> (\<forall>power_left.
                      \<not> is_fin (fadd (fadd (fdot (on_or_waiting_final ?cm False idle_fleet [NaN, NaN])
                                               [NaN, NaN]) power_left) curtailed_wind)))
           \<and> (NaN \<in> set [NaN, NaN] \<longrightarrow>
                fdot (on_or_waiting_final ?cm False idle_fleet [NaN, NaN]) [NaN, NaN] = NaN
                \<and> curtailed_wind = Fin 0)"
    using control_power_balance [where allocate = power_sharing_policy and sv = idle_fleet
        and power_in = 0 and stack_power = "[NaN, NaN]" and ?sv1.0 = idle_fleet
        and cm = ?cm and deg = False, OF a' b']
    by (elim exE) (rule that)
  have r1: "res = None"
    using rc' [THEN conjunct2, THEN conjunct2, THEN conjunct1, THEN mp, OF nf, THEN conjunct1] .
  have r2: "curtailed_wind = Fin 0"
    using rc' [THEN conjunct2, THEN conjunct2, THEN conjunct2, THEN mp, OF n, THEN conjunct2] .
  have nanc: "control ?cm False power_sharing_policy idle_fleet 0 = Inr (None, Fin 0)"
    using rc' [THEN conjunct1] unfolding r1 r2 .
  show ?thesis
    using a b fin a' b' nf n nanc by (intro conjI)
qed

text \<open>
  The baseline method on one stack that is off, with 50 W of input, below the minimum
  power: the stack stays off and is handed the 50 W. No stack is on or waiting, the
  stack reports the 50 W as left, and the curtailment is 50 W as well: the three terms
  add up to 100 W. And power sharing on a fleet of two idle stacks with no input: the
  shares are nan, the dot product is nan and the curtailment is 0.
\<close>

theorem control_power_balance_counterexample:
  "baseline_controller single_fleet 50 = Inr ([Fin 50], single_fleet)
   \<and> on_or_waiting_final (const_cell 1 2 3) True single_fleet [Fin 50] = [0]
   \<and> (case control (const_cell 1 2 3) True baseline_controller single_fleet 50 of
        Inr (Some (H2_mass_out, H2_mass_flow_rate, power_left, sv2), curtailed_wind) \<Rightarrow>
          power_left = 50 \<and> curtailed_wind = Fin 50
          \<and> allocated_on_or_waiting True (stacks single_fleet) (stacks sv2) [50] = 0
          \<and> allocated_on_or_waiting True (stacks single_fleet) (stacks sv2) [50]
              + power_left + 50 \<noteq> 50
      | _ \<Rightarrow> False)
   \<and> power_sharing_policy idle_fleet 0 = Inr ([NaN, NaN], idle_fleet)
   \<and> fdot (on_or_waiting_final (const_cell 1 2 3) False idle_fleet [NaN, NaN]) [NaN, NaN] = NaN
   \<and> control (const_cell 1 2 3) False power_sharing_policy idle_fleet 0 = Inr (None, Fin 0)"
  by code_simp

end
